theory Spec2Isabelle
  imports Main "HOL-Library.AList"
begin

section \<open>The DPoS consensus state (consensus\_state.go)\<close>

subsection \<open>Messages\<close>

text \<open>
  Go byte slices and strings are lists of bytes; \<open>bytes.Equal\<close> and \<open>==\<close> on strings
  are equality of these lists (a nil slice and an empty slice are equal for
  \<open>bytes.Equal\<close>, and both are \<open>[]\<close> here). \<open>string(b)\<close> is the identity.
\<close>

type_synonym bytes = string

text \<open>
  Modelled from the spec: the message types of package \<open>dpos/types\<close> and
  \<open>dposvote/types\<close> are declared outside the files at hand. The records carry the
  fields the spec's data model names; the functions below read \<open>VoteID\<close>,
  \<open>VotedNodeAddress\<close>, \<open>PeriodStart\<close>, \<open>PeriodStop\<close>, \<open>VoterNodeAddress\<close>,
  \<open>VoteTimestamp\<close>, \<open>Signature\<close>, \<open>Cycle\<close>, \<open>StopHeight\<close>, \<open>StopHash\<close> and
  \<open>Pubkey\<close>. A message handed to an operation is a decoded message: it is a value,
  and a vote carries its vote item. The slots of the consensus state, which the
  code compares with \<open>nil\<close>, are options.
\<close>

record CanonicalOnceCBInfo =
  Cycle :: int
  StopHeight :: int
  StopHash :: string
  Pubkey :: string

record DposCBInfo =
  Cycle :: int
  StopHeight :: int
  StopHash :: string
  Pubkey :: string
  Signature :: string

record VoteItem =
  VotedNodeAddress :: bytes
  CycleStart :: int
  CycleStop :: int
  PeriodStart :: int
  PeriodStop :: int
  VoteID :: bytes

record DPosNotify =
  Vote :: VoteItem
  NotifyTimestamp :: int
  NotifyNodeAddress :: bytes
  Signature :: bytes

record DPosVoteReply =
  Vote :: VoteItem
  Signature :: bytes

record DPosVote =
  VoteItem :: VoteItem
  VoteTimestamp :: int
  VoterNodeAddress :: bytes
  Signature :: bytes

subsection \<open>The state\<close>

text \<open>
  The private validator is an interface value; the state reads its address only.
  It is \<open>nil\<close> until \<open>SetPrivValidator\<close> is called. Modelled from the spec: a
  validator is \<open>{address, public_key, voting_power}\<close>, and the validator manager an
  ordered collection of validators with a \<open>chain_id\<close>; both types are declared
  outside the files at hand.
\<close>

datatype PrivValidator = PrivValidator (GetAddress: bytes)

record Validator =
  Address :: bytes
  PubKey :: bytes
  VotingPower :: int

record ValidatorMgr =
  ChainID :: string
  Validators :: "Validator list"

text \<open>
  Pointers to collaborators (the client, the ticker) and channels are handles: the
  operations modelled here store them and never look inside. The active state object
  \<open>dposState\<close> is the number of its state type.
\<close>

type_synonym handle = nat

record ConsensusState =
  client :: handle
  privValidator :: "PrivValidator option"
  privValidatorIndex :: int
  mtx :: bool
  validatorMgr :: ValidatorMgr
  peerMsgQueue :: handle
  internalMsgQueue :: handle
  timeoutTicker :: handle
  broadcastChannel :: handle
  ourID :: string
  started :: nat
  stopped :: nat
  Quit :: handle
  dposState :: int
  dposVotes :: "DPosVote list"
  currentVote :: "VoteItem option"
  lastVote :: "VoteItem option"
  myVote :: "DPosVote option"
  lastMyVote :: "DPosVote option"
  notify :: "DPosNotify option"
  lastNotify :: "DPosNotify option"
  cachedVotes :: "DPosVote list"
  cachedNotify :: "DPosNotify option"
  cycleBoundaryMap :: "(int \<times> DposCBInfo) list"

text \<open>A call on a \<open>nil\<close> interface value panics.\<close>

datatype panic = NilDereference

subsection \<open>Proposer test and slot operations\<close>

definition IsProposer :: "ConsensusState \<Rightarrow> panic + bool" where
  "IsProposer cs =
     (case currentVote cs of
        Some cv \<Rightarrow>
          (case privValidator cs of
             None \<Rightarrow> Inl NilDereference
           | Some pv \<Rightarrow> Inr (VotedNodeAddress cv = GetAddress pv))
      | None \<Rightarrow> Inr False)"

definition ClearVotes :: "ConsensusState \<Rightarrow> ConsensusState" where
  "ClearVotes cs = cs\<lparr>dposVotes := [], currentVote := None, myVote := None\<rparr>"

definition SaveVote :: "ConsensusState \<Rightarrow> ConsensusState" where
  "SaveVote cs =
     (case lastVote cs of
        None \<Rightarrow> cs\<lparr>lastVote := currentVote cs\<rparr>
      | Some lv \<Rightarrow>
          (case currentVote cs of
             Some cv \<Rightarrow> if VoteID cv \<noteq> VoteID lv then cs\<lparr>lastVote := currentVote cs\<rparr> else cs
           | None \<Rightarrow> cs))"

definition SetCurrentVote :: "VoteItem option \<Rightarrow> ConsensusState \<Rightarrow> ConsensusState" where
  "SetCurrentVote vote cs = cs\<lparr>currentVote := vote\<rparr>"

definition SaveMyVote :: "ConsensusState \<Rightarrow> ConsensusState" where
  "SaveMyVote cs =
     (case lastMyVote cs of
        None \<Rightarrow> cs\<lparr>lastMyVote := myVote cs\<rparr>
      | Some lm \<Rightarrow>
          (case myVote cs of
             Some mv \<Rightarrow>
               if DPosVote.Signature mv \<noteq> DPosVote.Signature lm
               then cs\<lparr>lastMyVote := myVote cs\<rparr> else cs
           | None \<Rightarrow> cs))"

definition SetMyVote :: "DPosVote option \<Rightarrow> ConsensusState \<Rightarrow> ConsensusState" where
  "SetMyVote vote cs = cs\<lparr>myVote := vote\<rparr>"

definition SaveNotify :: "ConsensusState \<Rightarrow> ConsensusState" where
  "SaveNotify cs =
     (case lastNotify cs of
        None \<Rightarrow> cs\<lparr>lastNotify := notify cs\<rparr>
      | Some ln \<Rightarrow>
          (case notify cs of
             Some n \<Rightarrow>
               if DPosNotify.Signature n \<noteq> DPosNotify.Signature ln
               then cs\<lparr>lastNotify := notify cs\<rparr> else cs
           | None \<Rightarrow> cs))"

definition SetNotify :: "DPosNotify \<Rightarrow> ConsensusState \<Rightarrow> ConsensusState" where
  "SetNotify n cs =
     (let cs1 = (case notify cs of
                   Some old \<Rightarrow>
                     if DPosNotify.Signature old \<noteq> DPosNotify.Signature n
                     then cs\<lparr>lastNotify := notify cs\<rparr> else cs
                 | None \<Rightarrow> cs)
      in cs1\<lparr>notify := Some n\<rparr>)"

definition CacheNotify :: "DPosNotify option \<Rightarrow> ConsensusState \<Rightarrow> ConsensusState" where
  "CacheNotify n cs = cs\<lparr>cachedNotify := n\<rparr>"

definition ClearCachedNotify :: "ConsensusState \<Rightarrow> ConsensusState" where
  "ClearCachedNotify cs = cs\<lparr>cachedNotify := None\<rparr>"

definition ClearCachedVotes :: "ConsensusState \<Rightarrow> ConsensusState" where
  "ClearCachedVotes cs = cs\<lparr>cachedVotes := []\<rparr>"

definition SetState :: "int \<Rightarrow> ConsensusState \<Rightarrow> ConsensusState" where
  "SetState st cs = cs\<lparr>dposState := st\<rparr>"

definition SetPrivValidator :: "PrivValidator option \<Rightarrow> int \<Rightarrow> ConsensusState \<Rightarrow> ConsensusState" where
  "SetPrivValidator priv idx cs = cs\<lparr>privValidator := priv, privValidatorIndex := idx\<rparr>"

subsection \<open>The vote pool: admission\<close>

text \<open>
  The scan of \<open>AddVotes\<close> and \<open>CacheVotes\<close>: one pass over the pool from index \<open>i\<close>,
  which stops at the first entry with the vote's signature (\<open>repeatFlag\<close>) or, failing
  that test on this entry, with the vote's voter address (\<open>addrExistFlag\<close>, \<open>index\<close>).
  The result is \<open>(repeatFlag, addrExistFlag, index)\<close>.
\<close>

fun scanPool :: "DPosVote list \<Rightarrow> DPosVote \<Rightarrow> nat \<Rightarrow> bool \<times> bool \<times> int" where
  "scanPool [] vote i = (False, False, - 1)"
| "scanPool (p # ps) vote i =
     (if DPosVote.Signature p = DPosVote.Signature vote then (True, False, - 1)
      else if VoterNodeAddress p = VoterNodeAddress vote then (False, True, int i)
      else scanPool ps vote (Suc i))"

text \<open>
  \<open>AddVotes\<close> and \<open>CacheVotes\<close> have the same body after the staleness guard, the one
  on \<open>cs.dposVotes\<close> and the other on \<open>cs.cachedVotes\<close>; \<open>admit\<close> is that body on a
  pool. When \<open>addrExistFlag\<close> is set, \<open>index\<close> is an index of the pool (lemma
  \<open>admit_cases\<close>), so the reads and writes at \<open>index\<close> are in range.
\<close>

definition admit :: "DPosVote list \<Rightarrow> DPosVote \<Rightarrow> DPosVote list" where
  "admit pool vote =
     (case scanPool pool vote 0 of
        (repeatFlag, addrExistFlag, index) \<Rightarrow>
          if repeatFlag then pool
          else if \<not> addrExistFlag then pool @ [vote]
          else if VoteTimestamp vote > VoteTimestamp (pool ! nat index)
               then pool[nat index := vote]
          else pool)"

definition AddVotes :: "DPosVote \<Rightarrow> ConsensusState \<Rightarrow> ConsensusState" where
  "AddVotes vote cs =
     (if (case lastVote cs of
            Some lv \<Rightarrow> PeriodStart (VoteItem vote) < PeriodStop lv
          | None \<Rightarrow> False)
      then cs
      else cs\<lparr>dposVotes := admit (dposVotes cs) vote\<rparr>)"

definition CacheVotes :: "DPosVote \<Rightarrow> ConsensusState \<Rightarrow> ConsensusState" where
  "CacheVotes vote cs = cs\<lparr>cachedVotes := admit (cachedVotes cs) vote\<rparr>"

subsection \<open>The tally\<close>

definition continueToVote :: int where "continueToVote = 0"

definition voteSuccess :: int where "voteSuccess = 1"

definition voteFail :: int where "voteFail = 2"

text \<open>
  \<open>dposDelegateNum\<close> is declared outside the files at hand; it is the parameter \<open>N\<close>.
  The conversions \<open>int(dposDelegateNum)\<close> show an integer type other than \<open>int\<close>; it
  is taken to be \<open>int64\<close>, and \<open>int\<close> to have 64 bits. \<open>int64\<close> wraps a result into
  the range of the type, \<open>quo\<close> is Go's integer division, which truncates toward zero.
\<close>

definition int64 :: "int \<Rightarrow> int" where
  "int64 x = (x + 2 ^ 63) mod 2 ^ 64 - 2 ^ 63"

definition quo :: "int \<Rightarrow> int \<Rightarrow> int" where
  "quo a b = sgn a * sgn b * (\<bar>a\<bar> div \<bar>b\<bar>)"

definition major32 :: "int \<Rightarrow> int" where
  "major32 N = quo (int64 (N * 2)) 3"

text \<open>The first loop: \<open>voteStat\<close>, the number of votes for each vote id.\<close>

fun countVotes :: "DPosVote list \<Rightarrow> (bytes \<rightharpoonup> int) \<Rightarrow> (bytes \<rightharpoonup> int)" where
  "countVotes [] voteStat = voteStat"
| "countVotes (v # vs) voteStat =
     (let key = VoteID (VoteItem v) in
      case voteStat key of
        Some c \<Rightarrow> countVotes vs (voteStat(key \<mapsto> int64 (c + 1)))
      | None \<Rightarrow> countVotes vs (voteStat(key \<mapsto> 1)))"

text \<open>
  The second loop, \<open>for k, v := range voteStat\<close>. Go visits every key of a map once, in
  an order the language leaves open: the order is the parameter \<open>ks\<close>, and
  \<open>rangeOrder m ks\<close> says that \<open>ks\<close> is an order in which \<open>m\<close> can be visited.
\<close>

definition rangeOrder :: "('k \<rightharpoonup> 'v) \<Rightarrow> 'k list \<Rightarrow> bool" where
  "rangeOrder m ks \<longleftrightarrow> distinct ks \<and> set ks = dom m"

fun rangeMax :: "(bytes \<rightharpoonup> int) \<Rightarrow> bytes list \<Rightarrow> bytes \<times> int \<Rightarrow> bytes \<times> int" where
  "rangeMax voteStat [] (key, val) = (key, val)"
| "rangeMax voteStat (k # ks) (key, val) =
     (case voteStat k of
        Some v \<Rightarrow> if v > val then rangeMax voteStat ks (k, v)
                  else rangeMax voteStat ks (key, val)
      | None \<Rightarrow> rangeMax voteStat ks (key, val))"

text \<open>The third loop: the vote item of the first vote of the pool with the chosen id.\<close>

fun firstWithID :: "DPosVote list \<Rightarrow> bytes \<Rightarrow> VoteItem option" where
  "firstWithID [] key = None"
| "firstWithID (v # vs) key =
     (if key = VoteID (VoteItem v) then Some (VoteItem v) else firstWithID vs key)"

definition CheckVotes :: "int \<Rightarrow> bytes list \<Rightarrow> ConsensusState \<Rightarrow> int \<times> VoteItem option" where
  "CheckVotes N ks cs =
     (if int (length (dposVotes cs)) < major32 N then (continueToVote, None)
      else
        (case rangeMax (countVotes (dposVotes cs) Map.empty) ks ([], 0) of
           (key, val) \<Rightarrow>
             if val \<ge> major32 N then
               (case firstWithID (dposVotes cs) key of
                  Some item \<Rightarrow> (voteSuccess, Some item)
                | None \<Rightarrow> (continueToVote, None))
             else if int64 (val + int64 (N - int (length (dposVotes cs)))) < major32 N
                  then (voteFail, None)
             else (continueToVote, None)))"

subsection \<open>Construction\<close>

text \<open>
  \<open>NewConsensusState\<close>: the two queues, the ticker and the quit channel are fresh
  objects (handles \<open>1\<close> to \<open>4\<close>; \<open>0\<close> is \<open>nil\<close>), the state object is the initial
  one, whose number is the parameter \<open>initState\<close>, the map is empty and every other
  field has the zero value of its type.
\<close>

definition NewConsensusState :: "handle \<Rightarrow> ValidatorMgr \<Rightarrow> int \<Rightarrow> ConsensusState" where
  "NewConsensusState cl valMgr initState =
     \<lparr>client = cl, privValidator = None, privValidatorIndex = 0, mtx = False,
      validatorMgr = valMgr, peerMsgQueue = 1, internalMsgQueue = 2, timeoutTicker = 3,
      broadcastChannel = 0, ourID = [], started = 0, stopped = 0, Quit = 4,
      dposState = initState, dposVotes = [], currentVote = None, lastVote = None,
      myVote = None, lastMyVote = None, notify = None, lastNotify = None,
      cachedVotes = [], cachedNotify = None, cycleBoundaryMap = []\<rparr>"

subsection \<open>The cycle-boundary cache\<close>

text \<open>
  The map \<open>cycleBoundaryMap\<close> is a list of pairs of a key and a value, read with
  \<open>map_of\<close>: \<open>m[k] = v\<close> is \<open>AList.update k v m\<close>, \<open>delete(m, k)\<close> is
  \<open>AList.delete k m\<close>, and \<open>len(m)\<close> is the number of keys. The order of the list is
  not the order of a range loop: the loop \<open>for k := range m\<close> of \<open>UpdateCBInfo\<close>
  visits the keys in the order \<open>ks\<close> (see \<open>rangeOrder\<close>). \<open>rangeOldest\<close> is that loop,
  with \<open>None\<close> for the early return taken when the key \<open>info.Cycle\<close> is met and
  \<open>Some oldestCycle\<close> when the loop runs to its end.
\<close>

definition len :: "('k \<times> 'v) list \<Rightarrow> nat" where
  "len m = card (set (map fst m))"

fun rangeOldest :: "int list \<Rightarrow> int \<Rightarrow> int \<Rightarrow> int option" where
  "rangeOldest [] cycle oldestCycle = Some oldestCycle"
| "rangeOldest (k # ks) cycle oldestCycle =
     (if k = cycle then None
      else if oldestCycle = 0 then rangeOldest ks cycle k
      else if oldestCycle > k then rangeOldest ks cycle k
      else rangeOldest ks cycle oldestCycle)"

definition updateMap ::
  "int list \<Rightarrow> DposCBInfo \<Rightarrow> (int \<times> DposCBInfo) list \<Rightarrow> (int \<times> DposCBInfo) list" where
  "updateMap ks info m =
     (let valueNumber = len m in
      if valueNumber = 0 then AList.update (DposCBInfo.Cycle info) info m
      else
        (case rangeOldest ks (DposCBInfo.Cycle info) 0 of
           None \<Rightarrow> AList.update (DposCBInfo.Cycle info) info m
         | Some oldestCycle \<Rightarrow>
             AList.update (DposCBInfo.Cycle info) info
               (if valueNumber \<ge> 5 then AList.delete oldestCycle m else m)))"

definition UpdateCBInfo :: "int list \<Rightarrow> DposCBInfo \<Rightarrow> ConsensusState \<Rightarrow> ConsensusState" where
  "UpdateCBInfo ks info cs = cs\<lparr>cycleBoundaryMap := updateMap ks info (cycleBoundaryMap cs)\<rparr>"

definition GetCBInfoByCircle :: "int \<Rightarrow> ConsensusState \<Rightarrow> DposCBInfo option" where
  "GetCBInfoByCircle cycle cs = map_of (cycleBoundaryMap cs) cycle"

subsection \<open>Sequences of operations\<close>

definition SetOurID :: "string \<Rightarrow> ConsensusState \<Rightarrow> ConsensusState" where
  "SetOurID ident cs = cs\<lparr>ourID := ident\<rparr>"

definition SetBroadcastChannel :: "handle \<Rightarrow> ConsensusState \<Rightarrow> ConsensusState" where
  "SetBroadcastChannel ch cs = cs\<lparr>broadcastChannel := ch\<rparr>"

definition SetTimeoutTicker :: "handle \<Rightarrow> ConsensusState \<Rightarrow> ConsensusState" where
  "SetTimeoutTicker t cs = cs\<lparr>timeoutTicker := t\<rparr>"

definition updateToValMgr :: "ValidatorMgr \<Rightarrow> ConsensusState \<Rightarrow> ConsensusState" where
  "updateToValMgr valMgr cs = cs\<lparr>validatorMgr := valMgr\<rparr>"

text \<open>
  The operations of the file that write the consensus state, as calls with their
  arguments; \<open>run\<close> applies a sequence of calls from left to right. A call of
  \<open>UpdateCBInfo\<close> carries the order in which its range loop visits the map.
\<close>

datatype op =
    OpSetOurID string
  | OpSetBroadcastChannel handle
  | OpSetPrivValidator "PrivValidator option" int
  | OpSetTimeoutTicker handle
  | OpUpdateToValMgr ValidatorMgr
  | OpSetState int
  | OpSaveVote
  | OpSetCurrentVote "VoteItem option"
  | OpSaveMyVote
  | OpSetMyVote "DPosVote option"
  | OpSaveNotify
  | OpSetNotify DPosNotify
  | OpCacheNotify "DPosNotify option"
  | OpClearCachedNotify
  | OpAddVotes DPosVote
  | OpCacheVotes DPosVote
  | OpClearVotes
  | OpClearCachedVotes
  | OpUpdateCBInfo "int list" DposCBInfo

fun exec :: "op \<Rightarrow> ConsensusState \<Rightarrow> ConsensusState" where
  "exec (OpSetOurID ident) cs = SetOurID ident cs"
| "exec (OpSetBroadcastChannel ch) cs = SetBroadcastChannel ch cs"
| "exec (OpSetPrivValidator priv idx) cs = SetPrivValidator priv idx cs"
| "exec (OpSetTimeoutTicker t) cs = SetTimeoutTicker t cs"
| "exec (OpUpdateToValMgr valMgr) cs = updateToValMgr valMgr cs"
| "exec (OpSetState st) cs = SetState st cs"
| "exec OpSaveVote cs = SaveVote cs"
| "exec (OpSetCurrentVote v) cs = SetCurrentVote v cs"
| "exec OpSaveMyVote cs = SaveMyVote cs"
| "exec (OpSetMyVote v) cs = SetMyVote v cs"
| "exec OpSaveNotify cs = SaveNotify cs"
| "exec (OpSetNotify n) cs = SetNotify n cs"
| "exec (OpCacheNotify n) cs = CacheNotify n cs"
| "exec OpClearCachedNotify cs = ClearCachedNotify cs"
| "exec (OpAddVotes v) cs = AddVotes v cs"
| "exec (OpCacheVotes v) cs = CacheVotes v cs"
| "exec OpClearVotes cs = ClearVotes cs"
| "exec OpClearCachedVotes cs = ClearCachedVotes cs"
| "exec (OpUpdateCBInfo ks info) cs = UpdateCBInfo ks info cs"

fun run :: "op list \<Rightarrow> ConsensusState \<Rightarrow> ConsensusState" where
  "run [] cs = cs"
| "run (c # cs') cs = run cs' (exec c cs)"

subsection \<open>The dispatcher\<close>

text \<open>
  A message of the queues carries one of the four message types, or something else.
\<close>

datatype Msg =
    VoteMsg DPosVote
  | NotifyMsg DPosNotify
  | VoteReplyMsg DPosVoteReply
  | CBInfoMsg DposCBInfo
  | OtherMsg string

record MsgInfo =
  Msg :: Msg
  PeerID :: string
  PeerIP :: string

record timeoutInfo =
  Duration :: int
  State :: int

text \<open>
  The state objects and their five handlers are declared outside the files at hand:
  they are the parameter \<open>states\<close>, which gives the handlers of the state object with a
  given number. A handler either returns, or panics with a value; in both cases it
  leaves a consensus state behind (what it has written so far). What the handlers
  write to the log is not modelled.
\<close>

datatype outcome = Returns ConsensusState | Panics string ConsensusState

record StateObj =
  timeOut :: "ConsensusState \<Rightarrow> outcome"
  recvVote :: "ConsensusState \<Rightarrow> DPosVote \<Rightarrow> outcome"
  recvNotify :: "ConsensusState \<Rightarrow> DPosNotify \<Rightarrow> outcome"
  recvVoteReply :: "ConsensusState \<Rightarrow> DPosVoteReply \<Rightarrow> outcome"
  recvCBInfo :: "ConsensusState \<Rightarrow> DposCBInfo \<Rightarrow> outcome"

datatype logLine =
    LogError string "(string \<times> string) list"
  | LogInfo string
  | LogDebug string

text \<open>
  A deferred \<open>Unlock\<close> runs when the function returns and when it panics.
\<close>

definition unlock :: "outcome \<Rightarrow> outcome" where
  "unlock out =
     (case out of
        Returns cs \<Rightarrow> Returns (cs\<lparr>mtx := False\<rparr>)
      | Panics r cs \<Rightarrow> Panics r (cs\<lparr>mtx := False\<rparr>))"

definition handleMsg ::
  "(int \<Rightarrow> StateObj) \<Rightarrow> MsgInfo \<Rightarrow> ConsensusState \<Rightarrow> logLine list \<Rightarrow> outcome \<times> logLine list" where
  "handleMsg states mi cs lg =
     (let locked = cs\<lparr>mtx := True\<rparr>; st = states (dposState locked) in
      case Msg mi of
        VoteMsg v \<Rightarrow> (unlock (recvVote st locked v), lg)
      | NotifyMsg n \<Rightarrow> (unlock (recvNotify st locked n), lg)
      | VoteReplyMsg r \<Rightarrow> (unlock (recvVoteReply st locked r), lg)
      | CBInfoMsg i \<Rightarrow> (unlock (recvCBInfo st locked i), lg)
      | OtherMsg s \<Rightarrow>
          (unlock (Returns locked),
           lg @ [LogError ''Unknown msg type''
                   [(''msg'', s), (''peerid'', PeerID mi), (''peerip'', PeerIP mi)]]))"

definition handleTimeout ::
  "(int \<Rightarrow> StateObj) \<Rightarrow> timeoutInfo \<Rightarrow> ConsensusState \<Rightarrow> logLine list \<Rightarrow> outcome \<times> logLine list" where
  "handleTimeout states ti cs lg =
     (let lg1 = lg @ [LogDebug ''Received tock''];
          locked = cs\<lparr>mtx := True\<rparr>
      in (unlock (timeOut (states (dposState locked)) locked), lg1))"

text \<open>
  \<open>receiveRoutine\<close>. The loop has no end of its own: it is run on the list of the
  events that its \<open>select\<close> receives, in the order in which it receives them, and when
  the list is used up the routine is waiting in \<open>select\<close>. \<open>forLoop\<close> is the loop: it
  ends by the quit signal, by a panic of a handler, which leaves the loop and the
  function, or waiting. The deferred function of \<open>receiveRoutine\<close> then recovers a
  panic and logs it; \<open>stack\<close> is the text \<open>debug.Stack()\<close> gives. The result is how the
  routine stands, the state, the log, and the events that were not received.
\<close>

datatype event = FromPeer MsgInfo | FromInternal MsgInfo | Tock timeoutInfo | QuitSignal





text \<open>What the select case of an event does to the state and the log.\<close>

fun handle ::
  "(int \<Rightarrow> StateObj) \<Rightarrow> event \<Rightarrow> ConsensusState \<Rightarrow> logLine list \<Rightarrow> outcome \<times> logLine list" where
  "handle states (FromPeer mi) cs lg = handleMsg states mi cs lg"
| "handle states (FromInternal mi) cs lg = handleMsg states mi cs lg"
| "handle states (Tock ti) cs lg = handleTimeout states ti cs lg"
| "handle states QuitSignal cs lg = (Returns cs, lg @ [LogInfo ''ConsensusState recv quit signal.''])"

subsection \<open>Verification of cycle-boundary info\<close>

text \<open>
  \<open>hex.DecodeString\<close> of the Go library: two hexadecimal digits, of either case, give
  a byte; a string of odd length or with another character is an error (\<open>None\<close>).
\<close>

definition fromHexChar :: "char \<Rightarrow> nat option" where
  "fromHexChar c =
     (let n = (of_char c :: nat) in
      if 48 \<le> n \<and> n \<le> 57 then Some (n - 48)
      else if 97 \<le> n \<and> n \<le> 102 then Some (n - 97 + 10)
      else if 65 \<le> n \<and> n \<le> 70 then Some (n - 65 + 10)
      else None)"

fun DecodeString :: "string \<Rightarrow> bytes option" where
  "DecodeString [] = Some []"
| "DecodeString [c] = None"
| "DecodeString (a # b # rest) =
     (case fromHexChar a of
        None \<Rightarrow> None
      | Some x \<Rightarrow>
          (case fromHexChar b of
             None \<Rightarrow> None
           | Some y \<Rightarrow>
               (case DecodeString rest of
                  None \<Rightarrow> None
                | Some bs \<Rightarrow> Some (char_of (x * 16 + y) # bs))))"

text \<open>
  The verifier capability \<open>ConsensusCrypto\<close>, the method \<open>VerifyBytes\<close> of its public
  keys, and \<open>json.Marshal\<close> on \<open>CanonicalOnceCBInfo\<close>, whose declaration with its field
  tags is outside the files at hand, are parameters; \<open>None\<close> is an error.
\<close>

record ('pk, 'sg) Crypto =
  PubKeyFromBytes :: "bytes \<Rightarrow> 'pk option"
  SignatureFromBytes :: "bytes \<Rightarrow> 'sg option"
  Marshal :: "CanonicalOnceCBInfo \<Rightarrow> bytes option"
  VerifyBytes :: "'pk \<Rightarrow> bytes \<Rightarrow> 'sg \<Rightarrow> bool"

definition canonical :: "DposCBInfo \<Rightarrow> CanonicalOnceCBInfo" where
  "canonical info =
     \<lparr>CanonicalOnceCBInfo.Cycle = DposCBInfo.Cycle info,
      CanonicalOnceCBInfo.StopHeight = DposCBInfo.StopHeight info,
      CanonicalOnceCBInfo.StopHash = DposCBInfo.StopHash info,
      CanonicalOnceCBInfo.Pubkey = DposCBInfo.Pubkey info\<rparr>"

definition VerifyCBInfo :: "('pk, 'sg) Crypto \<Rightarrow> ConsensusState \<Rightarrow> DposCBInfo \<Rightarrow> bool" where
  "VerifyCBInfo env cs info =
     (case DecodeString (DposCBInfo.Pubkey info) of
        None \<Rightarrow> False
      | Some bPubkey \<Rightarrow>
     (case PubKeyFromBytes env bPubkey of
        None \<Rightarrow> False
      | Some pubkey \<Rightarrow>
     (case DecodeString (DposCBInfo.Signature info) of
        None \<Rightarrow> False
      | Some bSig \<Rightarrow>
     (case SignatureFromBytes env bSig of
        None \<Rightarrow> False
      | Some sig \<Rightarrow>
     (case Marshal env (canonical info) of
        None \<Rightarrow> False
      | Some byteCB \<Rightarrow> VerifyBytes env pubkey byteCB sig)))))"

section \<open>Notions of the claims\<close>

text \<open>
  The claims about the tally speak of the multiset count of a vote id over the pool
  and of the largest such count. These two definitions follow those words; the
  largest count over an empty pool is \<open>0\<close>.
\<close>

definition tally :: "DPosVote list \<Rightarrow> bytes \<Rightarrow> nat" where
  "tally P k = length (filter (\<lambda>v. VoteID (VoteItem v) = k) P)"

definition cstar :: "DPosVote list \<Rightarrow> nat" where
  "cstar P = Max (set (0 # map (\<lambda>v. tally P (VoteID (VoteItem v))) P))"

text \<open>The count a map holds for a key, \<open>0\<close> for a key it does not hold.\<close>

definition held :: "(bytes \<rightharpoonup> int) \<Rightarrow> bytes \<Rightarrow> int" where
  "held m k = (case m k of Some c \<Rightarrow> c | None \<Rightarrow> 0)"




text \<open>
  The words of the claim. \<open>canonicalForm\<close>: the canonical form
  \<open>{cycle, stop_height, stop_hash, pubkey}\<close>. \<open>validates\<close>: the signature of the info
  validates under the public key the info carries, over the serialization of the
  canonical form of the four fields of the info. \<open>signedWith\<close>: the info carries the
  public key of the private key \<open>sk\<close> and a signature made with \<open>sk\<close> over that
  serialization; \<open>sign\<close> and \<open>pubOf\<close> stand for the signer capability.
\<close>

definition canonicalForm :: "int \<Rightarrow> int \<Rightarrow> string \<Rightarrow> string \<Rightarrow> CanonicalOnceCBInfo" where
  "canonicalForm cycle stopHeight stopHash pubkey =
     \<lparr>CanonicalOnceCBInfo.Cycle = cycle, CanonicalOnceCBInfo.StopHeight = stopHeight,
      CanonicalOnceCBInfo.StopHash = stopHash, CanonicalOnceCBInfo.Pubkey = pubkey\<rparr>"

definition validates :: "('pk, 'sg) Crypto \<Rightarrow> DposCBInfo \<Rightarrow> bool" where
  "validates env info \<longleftrightarrow>
     (\<exists>bPubkey pubkey bSig sig byteCB.
        DecodeString (DposCBInfo.Pubkey info) = Some bPubkey \<and>
        PubKeyFromBytes env bPubkey = Some pubkey \<and>
        DecodeString (DposCBInfo.Signature info) = Some bSig \<and>
        SignatureFromBytes env bSig = Some sig \<and>
        Marshal env (canonicalForm (DposCBInfo.Cycle info) (DposCBInfo.StopHeight info)
                       (DposCBInfo.StopHash info) (DposCBInfo.Pubkey info)) = Some byteCB \<and>
        VerifyBytes env pubkey byteCB sig)"

definition signedWith ::
  "('pk, 'sg) Crypto \<Rightarrow> ('sk \<Rightarrow> bytes \<Rightarrow> 'sg) \<Rightarrow> ('sk \<Rightarrow> 'pk) \<Rightarrow> 'sk \<Rightarrow> DposCBInfo \<Rightarrow> bool" where
  "signedWith env sign pubOf sk info \<longleftrightarrow>
     (\<exists>bPubkey bSig byteCB.
        DecodeString (DposCBInfo.Pubkey info) = Some bPubkey \<and>
        PubKeyFromBytes env bPubkey = Some (pubOf sk) \<and>
        DecodeString (DposCBInfo.Signature info) = Some bSig \<and>
        Marshal env (canonicalForm (DposCBInfo.Cycle info) (DposCBInfo.StopHeight info)
                       (DposCBInfo.StopHash info) (DposCBInfo.Pubkey info)) = Some byteCB \<and>
        SignatureFromBytes env bSig = Some (sign sk byteCB))"


section \<open>Data for the examples\<close>

text \<open>A state as constructed, and votes and vote items with given identifying fields.\<close>

definition cs0 :: ConsensusState where
  "cs0 = NewConsensusState 5 \<lparr>ChainID = ''dpos'', Validators = []\<rparr> 1"

definition mkItem :: "bytes \<Rightarrow> VoteItem" where
  "mkItem vid = \<lparr>VotedNodeAddress = vid, CycleStart = 0, CycleStop = 0,
               PeriodStart = 0, PeriodStop = 0, VoteID = vid\<rparr>"

definition mkVote :: "bytes \<Rightarrow> bytes \<Rightarrow> int \<Rightarrow> bytes \<Rightarrow> DPosVote" where
  "mkVote voter sg ts vid =
     \<lparr>VoteItem = mkItem vid, VoteTimestamp = ts, VoterNodeAddress = voter, Signature = sg\<rparr>"

text \<open>A pool of \<open>n\<close> equal votes for each listed vote id.\<close>

definition poolOf :: "(nat \<times> bytes) list \<Rightarrow> DPosVote list" where
  "poolOf groups = concat (map (\<lambda>(n, vid). replicate n (mkVote ''V'' ''s'' 0 vid)) groups)"




text \<open>A state with the three last slots set, and two rounds of saving and clearing.\<close>

definition mkNotify :: "bytes \<Rightarrow> bytes \<Rightarrow> DPosNotify" where
  "mkNotify sg vid =
     \<lparr>DPosNotify.Vote = mkItem vid, NotifyTimestamp = 0, NotifyNodeAddress = vid,
      DPosNotify.Signature = sg\<rparr>"

definition csLast :: ConsensusState where
  "csLast = cs0\<lparr>lastVote := Some (mkItem ''A''), lastMyVote := Some (mkVote ''V1'' ''s1'' 1 ''A''),
                lastNotify := Some (mkNotify ''n1'' ''A'')\<rparr>"

definition rounds :: "op list" where
  "rounds = [OpSetCurrentVote None, OpSaveVote, OpClearVotes, OpSaveMyVote, OpSaveNotify,
             OpSetCurrentVote (Some (mkItem ''B'')), OpSetMyVote (Some (mkVote ''V1'' ''s2'' 2 ''B'')),
             OpSetNotify (mkNotify ''n2'' ''B''), OpSaveVote, OpSaveMyVote, OpSaveNotify, OpClearVotes]"

text \<open>A cache with an entry for each of the listed cycles.\<close>

definition mkCB :: "int \<Rightarrow> DposCBInfo" where
  "mkCB c = \<lparr>DposCBInfo.Cycle = c, DposCBInfo.StopHeight = 1000, DposCBInfo.StopHash = ''H'',
             DposCBInfo.Pubkey = ''P'', DposCBInfo.Signature = ''S''\<rparr>"

definition cacheOf :: "int list \<Rightarrow> (int \<times> DposCBInfo) list" where
  "cacheOf cycles = map (\<lambda>c. (c, mkCB c)) cycles"





text \<open>
  The hexadecimal text of bytes, as \<open>hex.EncodeToString\<close> of the Go library gives it.
\<close>

definition hexDigit :: "nat \<Rightarrow> char" where
  "hexDigit n = (if n < 10 then char_of (48 + n) else char_of (87 + n))"

definition EncodeToString :: "bytes \<Rightarrow> string" where
  "EncodeToString bs =
     concat (map (\<lambda>c. [hexDigit ((of_char c :: nat) div 16), hexDigit ((of_char c :: nat) mod 16)]) bs)"

text \<open>
  A serialization in the manner of \<open>encoding/json\<close>: the four fields under the names
  of the struct, integers in decimal, strings between quotes with the quote and the
  backslash escaped. A byte that is not ASCII is written as the escape \<open>\ufffd\<close>, which
  is what \<open>encoding/json\<close> writes for a byte that is not part of valid UTF-8 (the bytes
  \<open>0xFE\<close> and \<open>0xFF\<close> never are).
\<close>

fun decimal :: "nat \<Rightarrow> string" where
  "decimal n =
     (if n < 10 then [char_of (48 + n)] else decimal (n div 10) @ [char_of (48 + n mod 10)])"

declare decimal.simps [simp del]

definition showInt :: "int \<Rightarrow> string" where
  "showInt i = (if i < 0 then CHR ''-'' # decimal (nat (- i)) else decimal (nat i))"

definition jsonByte :: "char \<Rightarrow> string" where
  "jsonByte c =
     (if (of_char c :: nat) \<ge> 128 then CHR 0x5C # ''ufffd''
      else if c = CHR 0x22 then [CHR 0x5C, CHR 0x22]
      else if c = CHR 0x5C then [CHR 0x5C, CHR 0x5C]
      else [c])"

definition jsonText :: "string \<Rightarrow> string" where
  "jsonText s = CHR 0x22 # concat (map jsonByte s) @ [CHR 0x22]"

definition jsonLike :: "CanonicalOnceCBInfo \<Rightarrow> bytes" where
  "jsonLike c =
     ''{'' @ jsonText ''Cycle'' @ '':'' @ showInt (CanonicalOnceCBInfo.Cycle c) @ '','' @
     jsonText ''StopHeight'' @ '':'' @ showInt (CanonicalOnceCBInfo.StopHeight c) @ '','' @
     jsonText ''StopHash'' @ '':'' @ jsonText (CanonicalOnceCBInfo.StopHash c) @ '','' @
     jsonText ''Pubkey'' @ '':'' @ jsonText (CanonicalOnceCBInfo.Pubkey c) @ ''}''"

text \<open>
  A capability for the examples: a key is its own public key, a signature is the key
  followed by the payload and validates for that key and that payload only, and the
  serialization is \<open>jsonLike\<close>. \<open>toySigned\<close> is an info with the given key and fields,
  signed with the key over the serialization of its canonical form.
\<close>

definition toyCrypto :: "(bytes, bytes) Crypto" where
  "toyCrypto = \<lparr>PubKeyFromBytes = Some, SignatureFromBytes = Some,
                Marshal = (\<lambda>c. Some (jsonLike c)),
                VerifyBytes = (\<lambda>pk m sg. sg = pk @ m)\<rparr>"

definition toySign :: "bytes \<Rightarrow> bytes \<Rightarrow> bytes" where
  "toySign sk m = sk @ m"

definition toySigned :: "bytes \<Rightarrow> int \<Rightarrow> int \<Rightarrow> string \<Rightarrow> DposCBInfo" where
  "toySigned sk cycle stopHeight stopHash =
     \<lparr>DposCBInfo.Cycle = cycle, DposCBInfo.StopHeight = stopHeight,
      DposCBInfo.StopHash = stopHash, DposCBInfo.Pubkey = EncodeToString sk,
      DposCBInfo.Signature =
        EncodeToString (toySign sk
          (jsonLike (canonicalForm cycle stopHeight stopHash (EncodeToString sk))))\<rparr>"

definition signedInfo :: DposCBInfo where
  "signedInfo = toySigned ''k1'' 7 1000 ''H''"

text \<open>An info signed in the same way whose stop hash is the one byte \<open>0xFF\<close>.\<close>

definition highInfo :: DposCBInfo where
  "highInfo = toySigned ''k1'' 7 1000 [CHR 0xFF]"

section \<open>Theorems\<close>

subsection \<open>Machine arithmetic, counting and the range loop\<close>

lemma int64_id: "- (2 ^ 63) \<le> x \<Longrightarrow> x < 2 ^ 63 \<Longrightarrow> int64 x = x"
  by (simp add: int64_def)

lemma quo_nonneg: "0 \<le> a \<Longrightarrow> quo a 3 = a div 3"
  by (cases "a = 0") (simp_all add: quo_def)

lemma major32_eq: "0 \<le> N \<Longrightarrow> N < 2 ^ 62 \<Longrightarrow> major32 N = N * 2 div 3"
  by (simp add: major32_def int64_id quo_nonneg)

lemma tally_Cons:
  "tally (v # vs) k = (if VoteID (VoteItem v) = k then Suc (tally vs k) else tally vs k)"
  by (simp add: tally_def)

lemma tally_le_length: "tally P k \<le> length P"
  by (simp add: tally_def)

lemma countVotes_acc:
  "(\<forall>k. 0 \<le> held m k \<and> held m k + int (tally vs k) < 2 ^ 63) \<Longrightarrow>
   countVotes vs m k =
     (if tally vs k = 0 then m k else Some (held m k + int (tally vs k)))"
proof (induction vs arbitrary: m)
  case Nil
  then show ?case by (simp add: tally_def)
next
  case (Cons v vs)
  let ?key = "VoteID (VoteItem v)"
  have bound: "0 \<le> held m ?key" "held m ?key + 1 + int (tally vs ?key) < 2 ^ 63"
    using Cons.prems [rule_format, of ?key] by (simp_all add: tally_Cons)
  show ?case
  proof (cases "m ?key")
    case None
    let ?m' = "m(?key \<mapsto> 1)"
    have pre: "\<forall>k. 0 \<le> held ?m' k \<and> held ?m' k + int (tally vs k) < 2 ^ 63"
    proof
      fix k
      show "0 \<le> held ?m' k \<and> held ?m' k + int (tally vs k) < 2 ^ 63"
        using Cons.prems [rule_format, of k] bound None
        by (auto simp: held_def tally_Cons split: if_splits)
    qed
    have step: "countVotes (v # vs) m k = countVotes vs ?m' k"
      using None by (simp add: Let_def)
    show ?thesis
      unfolding step Cons.IH [OF pre]
      using None by (auto simp: held_def tally_Cons)
  next
    case (Some c)
    have c: "0 \<le> c" "c + 1 < 2 ^ 63"
      using bound Some by (simp_all add: held_def)
    let ?m' = "m(?key \<mapsto> c + 1)"
    have pre: "\<forall>k. 0 \<le> held ?m' k \<and> held ?m' k + int (tally vs k) < 2 ^ 63"
    proof
      fix k
      show "0 \<le> held ?m' k \<and> held ?m' k + int (tally vs k) < 2 ^ 63"
        using Cons.prems [rule_format, of k] bound Some
        by (auto simp: held_def tally_Cons split: if_splits)
    qed
    have w: "int64 (c + 1) = c + 1"
      using c by (intro int64_id) simp_all
    have step: "countVotes (v # vs) m k = countVotes vs ?m' k"
      using Some w by (simp add: Let_def)
    show ?thesis
      unfolding step Cons.IH [OF pre]
      using Some by (auto simp: held_def tally_Cons)
  qed
qed

lemma voteStat_eq:
  assumes "length P < 2 ^ 63"
  shows "countVotes P Map.empty k = (if tally P k = 0 then None else Some (int (tally P k)))"
proof -
  have "int (tally P k) < 2 ^ 63" for k
    using tally_le_length [of P k] assms by (simp add: order_le_less_trans)
  then have "\<forall>k. 0 \<le> held Map.empty k \<and> held Map.empty k + int (tally P k) < 2 ^ 63"
    by (simp add: held_def)
  from countVotes_acc [OF this, of k] show ?thesis
    by (simp add: held_def)
qed

lemma tally_pos_iff: "0 < tally P k \<longleftrightarrow> k \<in> (\<lambda>v. VoteID (VoteItem v)) ` set P"
  by (auto simp: tally_def filter_empty_conv length_greater_0_conv simp del: length_0_conv)

lemma dom_voteStat:
  "length P < 2 ^ 63 \<Longrightarrow> dom (countVotes P Map.empty) = (\<lambda>v. VoteID (VoteItem v)) ` set P"
  using tally_pos_iff [of P] by (auto simp: voteStat_eq dom_def split: if_splits)

lemma rangeMax_props:
  "rangeMax m ks (key, val) = (key', val') \<Longrightarrow>
     val \<le> val' \<and> (\<forall>k\<in>set ks. \<forall>v. m k = Some v \<longrightarrow> v \<le> val') \<and>
     ((key', val') = (key, val) \<or> (key' \<in> set ks \<and> m key' = Some val' \<and> val < val'))"
proof (induction ks arbitrary: key val)
  case Nil
  then show ?case by simp
next
  case (Cons k ks)
  show ?case
  proof (cases "m k")
    case None
    with Cons.prems have "rangeMax m ks (key, val) = (key', val')" by simp
    from Cons.IH [OF this] None show ?thesis by auto
  next
    case (Some v)
    show ?thesis
    proof (cases "v > val")
      case True
      with Some Cons.prems have "rangeMax m ks (k, v) = (key', val')" by simp
      from Cons.IH [OF this] Some True show ?thesis by auto
    next
      case False
      with Some Cons.prems have "rangeMax m ks (key, val) = (key', val')" by simp
      from Cons.IH [OF this] Some False show ?thesis by auto
    qed
  qed
qed

lemma cstar_bounds: "tally P k \<le> cstar P"
proof (cases "tally P k = 0")
  case True
  then show ?thesis by simp
next
  case False
  then have "k \<in> (\<lambda>v. VoteID (VoteItem v)) ` set P"
    using tally_pos_iff [of P k] by simp
  then have "tally P k \<in> set (0 # map (\<lambda>v. tally P (VoteID (VoteItem v))) P)"
    by auto
  then show ?thesis
    unfolding cstar_def by (intro Max_ge) simp_all
qed

lemma cstar_attained: "P \<noteq> [] \<Longrightarrow> \<exists>v\<in>set P. tally P (VoteID (VoteItem v)) = cstar P \<and> 0 < cstar P"
proof -
  assume ne: "P \<noteq> []"
  let ?A = "set (0 # map (\<lambda>v. tally P (VoteID (VoteItem v))) P)"
  have "Max ?A \<in> ?A" by (intro Max_in) simp_all
  then have mem: "cstar P = 0 \<or> (\<exists>v\<in>set P. tally P (VoteID (VoteItem v)) = cstar P)"
    unfolding cstar_def by auto
  from ne obtain w where w: "w \<in> set P" by (cases P) auto
  then have "0 < tally P (VoteID (VoteItem w))"
    using tally_pos_iff [of P "VoteID (VoteItem w)"] by blast
  with cstar_bounds [of P "VoteID (VoteItem w)"] have pos: "0 < cstar P" by simp
  with mem show ?thesis by auto
qed

lemma cstar_le_length: "cstar P \<le> length P"
proof (cases P)
  case Nil
  then show ?thesis by (simp add: cstar_def)
next
  case (Cons a list)
  then have "P \<noteq> []" by simp
  from cstar_attained [OF this] tally_le_length show ?thesis by metis
qed

text \<open>The outcome of the range loop under an admissible visiting order.\<close>

lemma rangeMax_voteStat:
  assumes len: "length P < 2 ^ 63"
    and ord: "rangeOrder (countVotes P Map.empty) ks"
    and run: "rangeMax (countVotes P Map.empty) ks ([], 0) = (key, val)"
  shows "val = int (cstar P)"
    and "P \<noteq> [] \<Longrightarrow> int (tally P key) = val \<and> 0 < tally P key"
    and "P = [] \<Longrightarrow> key = []"
proof -
  let ?m = "countVotes P Map.empty"
  note props = rangeMax_props [OF run]
  have ks: "set ks = (\<lambda>v. VoteID (VoteItem v)) ` set P"
    using ord dom_voteStat [OF len] by (simp add: rangeOrder_def)
  have upper: "int (tally P k) \<le> val" for k
  proof (cases "tally P k = 0")
    case True
    with props show ?thesis by simp
  next
    case False
    then have "k \<in> set ks" using ks tally_pos_iff [of P k] by simp
    moreover have "?m k = Some (int (tally P k))"
      using False by (simp add: voteStat_eq [OF len])
    ultimately show ?thesis using props by blast
  qed
  have attained: "P \<noteq> [] \<Longrightarrow> int (tally P key) = val \<and> 0 < tally P key"
  proof -
    assume ne: "P \<noteq> []"
    from cstar_attained [OF ne] obtain w where "w \<in> set P" "0 < tally P (VoteID (VoteItem w))"
      by auto
    with upper [of "VoteID (VoteItem w)"] have "0 < val" by simp
    with props have "?m key = Some val" by auto
    then show ?thesis
      using \<open>0 < val\<close> by (auto simp: voteStat_eq [OF len] split: if_splits)
  qed
  show "P \<noteq> [] \<Longrightarrow> int (tally P key) = val \<and> 0 < tally P key" by (rule attained)
  show "P = [] \<Longrightarrow> key = []"
    using props ks by auto
  show "val = int (cstar P)"
  proof (cases "P = []")
    case True
    then show ?thesis using props ks by (auto simp: cstar_def)
  next
    case False
    from attained [OF False] have "int (tally P key) = val" by simp
    moreover have "tally P key \<le> cstar P" by (rule cstar_bounds)
    moreover from cstar_attained [OF False] obtain w
      where "w \<in> set P" "tally P (VoteID (VoteItem w)) = cstar P"
      by auto
    with upper [of "VoteID (VoteItem w)"] have "int (cstar P) \<le> val" by simp
    ultimately show ?thesis by simp
  qed
qed

lemma firstWithID_found:
  "0 < tally P key \<Longrightarrow>
   \<exists>item. firstWithID P key = Some item \<and> VoteID item = key \<and> item \<in> VoteItem ` set P"
proof (induction P)
  case Nil
  then show ?case by (simp add: tally_def)
next
  case (Cons v P)
  then show ?case by (auto simp: tally_Cons split: if_splits)
qed

lemma CheckVotes_unfold:
  assumes N: "0 \<le> N" "N < 2 ^ 62"
    and len: "length (dposVotes cs) < 2 ^ 63"
    and ord: "rangeOrder (countVotes (dposVotes cs) Map.empty) ks"
    and P: "P = dposVotes cs" and M: "M = N * 2 div 3"
  shows "CheckVotes N ks cs =
     (if int (length P) < M then (continueToVote, None)
      else if int (cstar P) \<ge> M then
        (case firstWithID P (fst (rangeMax (countVotes P Map.empty) ks ([], 0))) of
           Some item \<Rightarrow> (voteSuccess, Some item)
         | None \<Rightarrow> (continueToVote, None))
      else if int (cstar P) + (N - int (length P)) < M then (voteFail, None)
      else (continueToVote, None))"
proof -
  obtain key val where run: "rangeMax (countVotes P Map.empty) ks ([], 0) = (key, val)"
    by (cases "rangeMax (countVotes P Map.empty) ks ([], 0)") auto
  have val: "val = int (cstar P)"
    using rangeMax_voteStat(1) [OF _ _ run] len ord P by simp
  have lenP: "int (length P) < 2 ^ 63" using len P by simp
  have c: "int (cstar P) \<le> int (length P)" using cstar_le_length [of P] by simp
  have w1: "int64 (N - int (length P)) = N - int (length P)"
    using N lenP by (intro int64_id) simp_all
  have w2: "int64 (int (cstar P) + (N - int (length P))) = int (cstar P) + (N - int (length P))"
    using N lenP c by (intro int64_id) simp_all
  show ?thesis
    unfolding CheckVotes_def major32_eq [OF N] P [symmetric] M [symmetric] run
    by (simp add: val w1 w2)
qed


lemma rangeOrder_voteStat:
  "length P < 2 ^ 63 \<Longrightarrow> distinct ks \<Longrightarrow> set ks = (\<lambda>v. VoteID (VoteItem v)) ` set P \<Longrightarrow>
   rangeOrder (countVotes P Map.empty) ks"
  by (simp add: rangeOrder_def dom_voteStat)



subsection \<open>The proposer test and the clearing of votes\<close>

text \<open>
  C9, as amended. \<open>IsProposer\<close> answers false when there is no agreed current vote.
  When there is one and the node has a private validator, it answers true exactly when
  the voted node address of the current vote equals the address of that validator.
  When there is one and no private validator has been set, the call of \<open>GetAddress\<close>
  on the \<open>nil\<close> interface value panics, and there is no answer.
\<close>

theorem IsProposer_spec:
  "(currentVote cs = None \<longrightarrow> IsProposer cs = Inr False) \<and>
   (\<forall>cv pv. currentVote cs = Some cv \<and> privValidator cs = Some pv \<longrightarrow>
      IsProposer cs = Inr (VotedNodeAddress cv = GetAddress pv)) \<and>
   (\<forall>cv. currentVote cs = Some cv \<and> privValidator cs = None \<longrightarrow>
      IsProposer cs = Inl NilDereference)"
  by (simp add: IsProposer_def)

theorem IsProposer_spec_witness:
  "currentVote cs0 = None \<and> IsProposer cs0 = Inr False \<and>
   currentVote (cs0\<lparr>privValidator := Some (PrivValidator ''A''), currentVote := Some (mkItem ''A'')\<rparr>)
     = Some (mkItem ''A'') \<and>
   privValidator (cs0\<lparr>privValidator := Some (PrivValidator ''A''), currentVote := Some (mkItem ''A'')\<rparr>)
     = Some (PrivValidator ''A'') \<and>
   IsProposer (cs0\<lparr>privValidator := Some (PrivValidator ''A''), currentVote := Some (mkItem ''A'')\<rparr>)
     = Inr True \<and>
   IsProposer (cs0\<lparr>privValidator := Some (PrivValidator ''B''), currentVote := Some (mkItem ''A'')\<rparr>)
     = Inr False \<and>
   currentVote (cs0\<lparr>currentVote := Some (mkItem ''A'')\<rparr>) = Some (mkItem ''A'') \<and>
   privValidator (cs0\<lparr>currentVote := Some (mkItem ''A'')\<rparr>) = None \<and>
   IsProposer (cs0\<lparr>currentVote := Some (mkItem ''A'')\<rparr>) = Inl NilDereference"
  using IsProposer_spec [of cs0]
    IsProposer_spec [of "cs0\<lparr>privValidator := Some (PrivValidator ''A''), currentVote := Some (mkItem ''A'')\<rparr>"]
    IsProposer_spec [of "cs0\<lparr>privValidator := Some (PrivValidator ''B''), currentVote := Some (mkItem ''A'')\<rparr>"]
    IsProposer_spec [of "cs0\<lparr>currentVote := Some (mkItem ''A'')\<rparr>"]
  by (simp add: cs0_def NewConsensusState_def mkItem_def)

text \<open>
  C9 as stated fails in a state the operations of the file reach: after
  \<open>NewConsensusState\<close> and \<open>SetCurrentVote\<close> the current vote is set and there is no
  private validator, and \<open>IsProposer\<close> panics instead of answering true or false.
\<close>

theorem IsProposer_no_validator_counterexample:
  "currentVote (SetCurrentVote (Some (mkItem ''A'')) cs0) = Some (mkItem ''A'') \<and>
   IsProposer (SetCurrentVote (Some (mkItem ''A'')) cs0) = Inl NilDereference \<and>
   IsProposer (SetCurrentVote (Some (mkItem ''A'')) cs0) \<noteq> Inr True \<and>
   IsProposer (SetCurrentVote (Some (mkItem ''A'')) cs0) \<noteq> Inr False"
  by (simp add: IsProposer_def SetCurrentVote_def cs0_def NewConsensusState_def)

text \<open>
  C10. \<open>ClearVotes\<close> empties the vote pool and sets \<open>currentVote\<close> and \<open>myVote\<close> to
  \<open>nil\<close>; every other field of the consensus state keeps its value, among them
  \<open>lastVote\<close>, \<open>lastMyVote\<close>, \<open>notify\<close>, \<open>lastNotify\<close>, \<open>cachedVotes\<close>,
  \<open>cachedNotify\<close> and the cycle-boundary map.
\<close>

theorem ClearVotes_frame:
  "dposVotes (ClearVotes cs) = [] \<and> currentVote (ClearVotes cs) = None \<and>
   myVote (ClearVotes cs) = None \<and>
   lastVote (ClearVotes cs) = lastVote cs \<and> lastMyVote (ClearVotes cs) = lastMyVote cs \<and>
   notify (ClearVotes cs) = notify cs \<and> lastNotify (ClearVotes cs) = lastNotify cs \<and>
   cachedVotes (ClearVotes cs) = cachedVotes cs \<and> cachedNotify (ClearVotes cs) = cachedNotify cs \<and>
   cycleBoundaryMap (ClearVotes cs) = cycleBoundaryMap cs \<and>
   client (ClearVotes cs) = client cs \<and> privValidator (ClearVotes cs) = privValidator cs \<and>
   privValidatorIndex (ClearVotes cs) = privValidatorIndex cs \<and> mtx (ClearVotes cs) = mtx cs \<and>
   validatorMgr (ClearVotes cs) = validatorMgr cs \<and> peerMsgQueue (ClearVotes cs) = peerMsgQueue cs \<and>
   internalMsgQueue (ClearVotes cs) = internalMsgQueue cs \<and>
   timeoutTicker (ClearVotes cs) = timeoutTicker cs \<and>
   broadcastChannel (ClearVotes cs) = broadcastChannel cs \<and> ourID (ClearVotes cs) = ourID cs \<and>
   started (ClearVotes cs) = started cs \<and> stopped (ClearVotes cs) = stopped cs \<and>
   Quit (ClearVotes cs) = Quit cs \<and> dposState (ClearVotes cs) = dposState cs \<and>
   ClearVotes cs = cs\<lparr>dposVotes := [], currentVote := None, myVote := None\<rparr>"
  by (simp add: ClearVotes_def)

subsection \<open>The tally (CheckVotes)\<close>

text \<open>
  C1, as amended. Let \<open>N\<close> be a delegate count with \<open>0 \<le> N < 2^62\<close> (so that \<open>N * 2\<close>
  stays inside \<open>int64\<close>), \<open>M = \<lfloor>N * 2 / 3\<rfloor>\<close>, \<open>P\<close> the pool (of a length that fits
  \<open>int\<close>, as every slice has) and \<open>c*\<close> the largest multiset count of a vote id over \<open>P\<close>;
  the range loop may visit the count map in any order. \<open>CheckVotes\<close> returns \<open>continueToVote\<close> when \<open>|P| < M\<close>. Otherwise, when
  \<open>c* \<ge> M\<close> and the pool is not empty it returns \<open>voteSuccess\<close> with the vote item of
  a pool entry whose vote id has count \<open>c* \<ge> M\<close>; when \<open>c* \<ge> M\<close> and the pool is
  empty (which needs \<open>M = 0\<close>) it returns \<open>continueToVote\<close>; when \<open>c* < M\<close> and
  \<open>c* + (N - |P|) < M\<close> it returns \<open>voteFail\<close>; and \<open>continueToVote\<close> in the remaining
  case. The three tests are read as the cascade of the code.
\<close>

theorem CheckVotes_tally:
  assumes N: "0 \<le> N" "N < 2 ^ 62"
    and len: "length (dposVotes cs) < 2 ^ 63"
    and ord: "rangeOrder (countVotes (dposVotes cs) Map.empty) ks"
    and P: "P = dposVotes cs" and M: "M = N * 2 div 3"
  shows "(int (length P) < M \<longrightarrow> CheckVotes N ks cs = (continueToVote, None)) \<and>
    (\<not> int (length P) < M \<and> M \<le> int (cstar P) \<and> P \<noteq> [] \<longrightarrow>
       (\<exists>item. CheckVotes N ks cs = (voteSuccess, Some item) \<and> item \<in> VoteItem ` set P \<and>
          tally P (VoteID item) = cstar P \<and> M \<le> int (tally P (VoteID item)))) \<and>
    (\<not> int (length P) < M \<and> M \<le> int (cstar P) \<and> P = [] \<longrightarrow>
       CheckVotes N ks cs = (continueToVote, None)) \<and>
    (\<not> int (length P) < M \<and> int (cstar P) < M \<and> int (cstar P) + (N - int (length P)) < M \<longrightarrow>
       CheckVotes N ks cs = (voteFail, None)) \<and>
    (\<not> int (length P) < M \<and> int (cstar P) < M \<and> \<not> int (cstar P) + (N - int (length P)) < M \<longrightarrow>
       CheckVotes N ks cs = (continueToVote, None))"
proof -
  note unf = CheckVotes_unfold [OF N len ord P M]
  obtain key val where run: "rangeMax (countVotes P Map.empty) ks ([], 0) = (key, val)"
    by (cases "rangeMax (countVotes P Map.empty) ks ([], 0)") auto
  have len': "length P < 2 ^ 63" and ord': "rangeOrder (countVotes P Map.empty) ks"
    using len ord P by simp_all
  note rm = rangeMax_voteStat [OF len' ord' run]
  have success: "\<exists>item. CheckVotes N ks cs = (voteSuccess, Some item) \<and> item \<in> VoteItem ` set P \<and>
          tally P (VoteID item) = cstar P \<and> M \<le> int (tally P (VoteID item))"
    if "\<not> int (length P) < M" "M \<le> int (cstar P)" "P \<noteq> []"
  proof -
    from rm(2) [OF that(3)] rm(1) have k: "tally P key = cstar P" "0 < tally P key" by simp_all
    from firstWithID_found [OF k(2)] obtain item
      where item: "firstWithID P key = Some item" "VoteID item = key" "item \<in> VoteItem ` set P"
      by blast
    have "CheckVotes N ks cs = (voteSuccess, Some item)"
      unfolding unf using that item run by simp
    with item k that show ?thesis by simp
  qed
  have empty: "CheckVotes N ks cs = (continueToVote, None)"
    if "\<not> int (length P) < M" "M \<le> int (cstar P)" "P = []"
    unfolding unf using that by simp
  show ?thesis
    using success empty by (simp add: unf)
qed

theorem CheckVotes_tally_witness:
  "(0::int) \<le> 21 \<and> (21::int) < 2 ^ 62 \<and>
   length (dposVotes (cs0\<lparr>dposVotes := poolOf [(14, ''X'')]\<rparr>)) < 2 ^ 63 \<and>
   rangeOrder (countVotes (dposVotes (cs0\<lparr>dposVotes := poolOf [(14, ''X'')]\<rparr>)) Map.empty) [''X''] \<and>
   \<not> int (length (poolOf [(14, ''X'')])) < 21 * 2 div 3 \<and>
   (21::int) * 2 div 3 \<le> int (cstar (poolOf [(14, ''X'')])) \<and>
   poolOf [(14, ''X'')] \<noteq> [] \<and>
   CheckVotes 21 [''X''] (cs0\<lparr>dposVotes := poolOf [(14, ''X'')]\<rparr>) = (voteSuccess, Some (mkItem ''X''))"
proof -
  let ?P = "poolOf [(14, ''X'')]"
  let ?cs = "cs0\<lparr>dposVotes := ?P\<rparr>"
  have P: "?P = dposVotes ?cs" by simp
  have h1: "(0::int) \<le> 21" and h2: "(21::int) < 2 ^ 62" by simp_all
  have h3: "length (dposVotes ?cs) < 2 ^ 63" by (simp add: poolOf_def)
  have h4: "rangeOrder (countVotes (dposVotes ?cs) Map.empty) [''X'']"
    using h3 by (intro rangeOrder_voteStat) (simp_all add: poolOf_def mkVote_def mkItem_def)
  have a1: "\<not> int (length ?P) < 21 * 2 div 3" by (simp add: poolOf_def)
  have a2: "(21::int) * 2 div 3 \<le> int (cstar ?P)" by code_simp
  have a3: "?P \<noteq> []" by (simp add: poolOf_def)
  from CheckVotes_tally [OF h1 h2 h3 h4 P refl] a1 a2 a3
  obtain it where "CheckVotes 21 [''X''] ?cs = (voteSuccess, Some it)" "it \<in> VoteItem ` set ?P"
    by blast
  moreover have "VoteItem ` set ?P = {mkItem ''X''}"
    by (simp add: poolOf_def mkVote_def)
  ultimately have "CheckVotes 21 [''X''] ?cs = (voteSuccess, Some (mkItem ''X''))" by simp
  with h1 h2 h3 h4 a1 a2 a3 show ?thesis by blast
qed

text \<open>
  C1 as stated fails for one delegate and the empty pool: \<open>M = 0\<close>, so \<open>|P| < M\<close> is
  false and \<open>c* \<ge> M\<close> holds for any count, yet there is no vote item to return and the
  result is \<open>continueToVote\<close>.
\<close>

theorem CheckVotes_empty_pool_counterexample:
  "\<not> int (length (dposVotes cs0)) < 1 * 2 div 3 \<and>
   (1::int) * 2 div 3 \<le> int (cstar (dposVotes cs0)) \<and>
   rangeOrder (countVotes (dposVotes cs0) Map.empty) [] \<and>
   CheckVotes 1 [] cs0 = (continueToVote, None) \<and> continueToVote \<noteq> voteSuccess"
  by (simp add: cs0_def NewConsensusState_def cstar_def rangeOrder_def CheckVotes_def
      major32_def int64_def quo_def continueToVote_def voteSuccess_def)

text \<open>
  The examples of the specification for \<open>N = 21\<close> (\<open>M = 14\<close>): thirteen equal votes,
  fourteen equal votes, and twenty-one votes split 8/7/6.
\<close>

lemma CheckVotes_thirteen:
  "CheckVotes 21 [''X''] (cs0\<lparr>dposVotes := poolOf [(13, ''X'')]\<rparr>) = (continueToVote, None)"
  by code_simp

lemma CheckVotes_fourteen:
  "CheckVotes 21 [''X''] (cs0\<lparr>dposVotes := poolOf [(14, ''X'')]\<rparr>) = (voteSuccess, Some (mkItem ''X''))"
  by code_simp

lemma CheckVotes_split_8_7_6:
  "CheckVotes 21 [''A'', ''B'', ''C'']
     (cs0\<lparr>dposVotes := poolOf [(8, ''A''), (7, ''B''), (6, ''C'')]\<rparr>) = (voteFail, None)"
  by code_simp

subsection \<open>Independence of the visiting order\<close>






subsection \<open>Admission to a pool\<close>









subsection \<open>The pools along a sequence of operations\<close>











subsection \<open>The last slots\<close>

lemma exec_last_kept:
  "(lastVote s \<noteq> None \<longrightarrow> lastVote (exec c s) \<noteq> None) \<and>
   (lastMyVote s \<noteq> None \<longrightarrow> lastMyVote (exec c s) \<noteq> None) \<and>
   (lastNotify s \<noteq> None \<longrightarrow> lastNotify (exec c s) \<noteq> None)"
proof (cases c)
  case OpSaveVote
  then show ?thesis by (simp add: SaveVote_def split: option.splits)
next
  case OpSaveMyVote
  then show ?thesis by (simp add: SaveMyVote_def split: option.splits)
next
  case OpSaveNotify
  then show ?thesis by (simp add: SaveNotify_def split: option.splits)
next
  case (OpSetNotify n)
  then show ?thesis by (simp add: SetNotify_def Let_def split: option.splits)
qed (simp_all add: SetOurID_def SetBroadcastChannel_def
      SetPrivValidator_def SetTimeoutTicker_def updateToValMgr_def SetState_def
      SetCurrentVote_def SetMyVote_def
      CacheNotify_def ClearCachedNotify_def ClearVotes_def ClearCachedVotes_def UpdateCBInfo_def
      CacheVotes_def AddVotes_def)

lemma run_last_kept:
  "(lastVote s \<noteq> None \<longrightarrow> lastVote (run ops s) \<noteq> None) \<and>
   (lastMyVote s \<noteq> None \<longrightarrow> lastMyVote (run ops s) \<noteq> None) \<and>
   (lastNotify s \<noteq> None \<longrightarrow> lastNotify (run ops s) \<noteq> None)"
proof (induction ops arbitrary: s)
  case Nil
  then show ?case by simp
next
  case (Cons c ops)
  from exec_last_kept [of s c] Cons.IH [of "exec c s"] show ?case by simp
qed

text \<open>
  C7. Along any sequence of operations of the file, a \<open>lastVote\<close> that is set stays
  set, and so do \<open>lastMyVote\<close> and \<open>lastNotify\<close>. \<open>SaveVote\<close> writes \<open>lastVote\<close> only:
  it adopts \<open>currentVote\<close> when \<open>lastVote\<close> is empty, or when \<open>currentVote\<close> is set and
  its vote id differs from that of \<open>lastVote\<close>, and keeps \<open>lastVote\<close> otherwise.
  \<open>SaveMyVote\<close> and \<open>SaveNotify\<close> follow the same rule with the signature in place of
  the vote id. \<open>ClearVotes\<close> leaves the three last slots as they are.
\<close>

theorem last_slots_advance:
  "(lastVote s \<noteq> None \<longrightarrow> lastVote (run ops s) \<noteq> None) \<and>
   (lastMyVote s \<noteq> None \<longrightarrow> lastMyVote (run ops s) \<noteq> None) \<and>
   (lastNotify s \<noteq> None \<longrightarrow> lastNotify (run ops s) \<noteq> None) \<and>
   SaveVote s = s\<lparr>lastVote :=
     (case lastVote s of
        None \<Rightarrow> currentVote s
      | Some lv \<Rightarrow>
          (case currentVote s of
             Some cv \<Rightarrow> if VoteID cv \<noteq> VoteID lv then Some cv else Some lv
           | None \<Rightarrow> Some lv))\<rparr> \<and>
   SaveMyVote s = s\<lparr>lastMyVote :=
     (case lastMyVote s of
        None \<Rightarrow> myVote s
      | Some lm \<Rightarrow>
          (case myVote s of
             Some mv \<Rightarrow> if DPosVote.Signature mv \<noteq> DPosVote.Signature lm then Some mv else Some lm
           | None \<Rightarrow> Some lm))\<rparr> \<and>
   SaveNotify s = s\<lparr>lastNotify :=
     (case lastNotify s of
        None \<Rightarrow> notify s
      | Some ln \<Rightarrow>
          (case notify s of
             Some n \<Rightarrow> if DPosNotify.Signature n \<noteq> DPosNotify.Signature ln then Some n else Some ln
           | None \<Rightarrow> Some ln))\<rparr> \<and>
   lastVote (ClearVotes s) = lastVote s \<and> lastMyVote (ClearVotes s) = lastMyVote s \<and>
   lastNotify (ClearVotes s) = lastNotify s"
proof -
  have sv: "SaveVote s = s\<lparr>lastVote :=
     (case lastVote s of
        None \<Rightarrow> currentVote s
      | Some lv \<Rightarrow>
          (case currentVote s of
             Some cv \<Rightarrow> if VoteID cv \<noteq> VoteID lv then Some cv else Some lv
           | None \<Rightarrow> Some lv))\<rparr>"
    by (simp add: SaveVote_def split: option.splits)
  have sm: "SaveMyVote s = s\<lparr>lastMyVote :=
     (case lastMyVote s of
        None \<Rightarrow> myVote s
      | Some lm \<Rightarrow>
          (case myVote s of
             Some mv \<Rightarrow> if DPosVote.Signature mv \<noteq> DPosVote.Signature lm then Some mv else Some lm
           | None \<Rightarrow> Some lm))\<rparr>"
    by (simp add: SaveMyVote_def split: option.splits)
  have sn: "SaveNotify s = s\<lparr>lastNotify :=
     (case lastNotify s of
        None \<Rightarrow> notify s
      | Some ln \<Rightarrow>
          (case notify s of
             Some n \<Rightarrow> if DPosNotify.Signature n \<noteq> DPosNotify.Signature ln then Some n else Some ln
           | None \<Rightarrow> Some ln))\<rparr>"
    by (simp add: SaveNotify_def split: option.splits)
  have cl: "lastVote (ClearVotes s) = lastVote s \<and> lastMyVote (ClearVotes s) = lastMyVote s \<and>
   lastNotify (ClearVotes s) = lastNotify s"
    by (simp add: ClearVotes_def)
  from run_last_kept [of s ops] sv sm sn cl show ?thesis by blast
qed

theorem last_slots_advance_witness:
  "lastVote csLast \<noteq> None \<and> lastMyVote csLast \<noteq> None \<and> lastNotify csLast \<noteq> None \<and>
   lastVote (run rounds csLast) \<noteq> None \<and> lastMyVote (run rounds csLast) \<noteq> None \<and>
   lastNotify (run rounds csLast) \<noteq> None"
proof -
  have h: "lastVote csLast \<noteq> None" "lastMyVote csLast \<noteq> None" "lastNotify csLast \<noteq> None"
    by (simp_all add: csLast_def)
  from last_slots_advance [of csLast rounds] h show ?thesis by blast
qed

lemma rounds_result:
  "lastVote (run rounds csLast) = Some (mkItem ''B'') \<and>
   lastMyVote (run rounds csLast) = Some (mkVote ''V1'' ''s2'' 2 ''B'') \<and>
   lastNotify (run rounds csLast) = Some (mkNotify ''n2'' ''B'')"
  by code_simp

subsection \<open>The cycle-boundary cache\<close>

lemma len_dom: "len m = card (dom (map_of m))"
  by (simp add: len_def dom_map_of_conv_image_fst)

lemma rangeOldest_None: "rangeOldest ks c old = None \<longleftrightarrow> c \<in> set ks"
  by (induction ks arbitrary: old) auto

lemma rangeOldest_mem:
  "rangeOldest ks c old = Some k \<Longrightarrow> k \<in> insert old (set ks)"
  by (induction ks arbitrary: old) (auto split: if_splits)

lemma rangeOldest_key:
  assumes "rangeOldest ks c 0 = Some k" "ks \<noteq> []"
  shows "k \<in> set ks"
proof -
  from assms obtain k0 rest where ks: "ks = k0 # rest" by (cases ks) auto
  with assms(1) have "rangeOldest rest c k0 = Some k" by (simp split: if_splits)
  from rangeOldest_mem [OF this] ks show ?thesis by auto
qed

lemma rangeOldest_Min_acc:
  "c \<notin> set ks \<Longrightarrow> 0 \<notin> set ks \<Longrightarrow> old \<noteq> 0 \<Longrightarrow>
   rangeOldest ks c old = Some (Min (insert old (set ks)))"
proof (induction ks arbitrary: old)
  case Nil
  then show ?case by simp
next
  case (Cons k ks)
  then have k: "k \<noteq> c" "k \<noteq> 0" and rest: "c \<notin> set ks" "0 \<notin> set ks" by auto
  show ?case
  proof (cases "old > k")
    case True
    then have "rangeOldest (k # ks) c old = rangeOldest ks c k"
      using k Cons.prems(3) by simp
    also have "\<dots> = Some (Min (insert k (set ks)))"
      using Cons.IH [OF rest k(2)] .
    also have "Min (insert k (set ks)) = Min (insert old (set (k # ks)))"
    proof -
      have "Min (insert old (set (k # ks))) = min old (Min (insert k (set ks)))"
        by (simp only: list.set) (intro Min_insert, simp_all)
      also have "\<dots> = Min (insert k (set ks))"
      proof -
        have "Min (insert k (set ks)) \<le> k" by (intro Min_le) simp_all
        with True have "Min (insert k (set ks)) \<le> old" by linarith
        then show ?thesis by (rule min_absorb2)
      qed
      finally show ?thesis by simp
    qed
    finally show ?thesis .
  next
    case False
    then have "rangeOldest (k # ks) c old = rangeOldest ks c old"
      using k Cons.prems(3) by simp
    also have "\<dots> = Some (Min (insert old (set ks)))"
      using Cons.IH [OF rest Cons.prems(3)] .
    also have "Min (insert old (set ks)) = Min (insert old (set (k # ks)))"
    proof -
      have "Min (insert old (set (k # ks))) = Min (insert k (insert old (set ks)))"
        by (simp add: insert_commute)
      also have "\<dots> = min k (Min (insert old (set ks)))"
        by (intro Min_insert) simp_all
      also have "\<dots> = Min (insert old (set ks))"
      proof -
        have "Min (insert old (set ks)) \<le> old" by (intro Min_le) simp_all
        with False have "Min (insert old (set ks)) \<le> k" by linarith
        then show ?thesis by (rule min_absorb2)
      qed
      finally show ?thesis by simp
    qed
    finally show ?thesis .
  qed
qed

lemma rangeOldest_Min:
  assumes "c \<notin> set ks" "0 \<notin> set ks" "ks \<noteq> []"
  shows "rangeOldest ks c 0 = Some (Min (set ks))"
proof -
  from assms(3) obtain k rest where ks: "ks = k # rest" by (cases ks) auto
  with assms have "k \<noteq> c" "k \<noteq> 0" "c \<notin> set rest" "0 \<notin> set rest" by auto
  with rangeOldest_Min_acc [of c rest k] ks show ?thesis by simp
qed

text \<open>
  What \<open>UpdateCBInfo\<close> does when no key of the cache is \<open>0\<close>: the four cases of the
  specification, the fourth evicting the smallest key.
\<close>

lemma updateMap_no_zero_key:
  assumes ord: "rangeOrder (map_of m) ks" and nz: "0 \<notin> dom (map_of m)"
  shows "map_of (updateMap ks info m) =
     (if len m = 0 \<or> DposCBInfo.Cycle info \<in> dom (map_of m) \<or> len m < 5
      then (map_of m)(DposCBInfo.Cycle info \<mapsto> info)
      else ((map_of m)(Min (dom (map_of m)) := None))(DposCBInfo.Cycle info \<mapsto> info))"
proof -
  let ?c = "DposCBInfo.Cycle info"
  from ord have ks: "set ks = dom (map_of m)" "distinct ks" by (simp_all add: rangeOrder_def)
  show ?thesis
  proof (cases "len m = 0")
    case True
    then show ?thesis by (simp add: updateMap_def update_conv')
  next
    case ne: False
    then have "dom (map_of m) \<noteq> {}" by (auto simp: len_dom)
    then have "set ks \<noteq> {}" unfolding ks(1) [symmetric] .
    then have nonempty: "ks \<noteq> []" by simp
    show ?thesis
    proof (cases "?c \<in> dom (map_of m)")
      case True
      with ks have "rangeOldest ks ?c 0 = None" by (simp add: rangeOldest_None)
      with ne True show ?thesis by (simp add: updateMap_def update_conv')
    next
      case False
      with ks nz have "rangeOldest ks ?c 0 = Some (Min (dom (map_of m)))"
        using rangeOldest_Min [of ?c ks] nonempty by simp
      with ne False show ?thesis
        by (simp add: updateMap_def update_conv' delete_conv' Let_def)
    qed
  qed
qed

text \<open>The cache never grows beyond five entries, whatever its keys.\<close>

lemma updateMap_size:
  assumes ord: "rangeOrder (map_of m) ks" and le: "len m \<le> 5"
  shows "len (updateMap ks info m) \<le> 5"
proof -
  let ?c = "DposCBInfo.Cycle info"
  let ?D = "dom (map_of m)"
  from ord have ks: "set ks = ?D" by (simp add: rangeOrder_def)
  have fin: "finite ?D" by (simp add: finite_dom_map_of)
  show ?thesis
  proof (cases "len m = 0")
    case True
    then have "?D = {}" using fin by (simp add: len_dom)
    then show ?thesis by (simp add: updateMap_def True len_dom update_conv')
  next
    case ne: False
    then have "?D \<noteq> {}" by (auto simp: len_dom)
    then have "set ks \<noteq> {}" unfolding ks [symmetric] .
    then have nonempty: "ks \<noteq> []" by simp
    show ?thesis
    proof (cases "rangeOldest ks ?c 0")
      case None
      then have "?c \<in> ?D" using ks by (simp add: rangeOldest_None)
      then have "insert ?c ?D = ?D" by auto
      with None ne le show ?thesis
        by (simp add: updateMap_def len_dom update_conv')
    next
      case (Some oldest)
      from rangeOldest_key [OF Some nonempty] ks have old: "oldest \<in> ?D" by simp
      show ?thesis
      proof (cases "len m \<ge> 5")
        case True
        have "card (insert ?c (?D - {oldest})) \<le> Suc (card (?D - {oldest}))"
          using fin by (simp add: card_insert_if)
        also have "card (?D - {oldest}) = card ?D - 1" using old fin by simp
        finally have "card (insert ?c (?D - {oldest})) \<le> 5"
          using le ne by (simp add: len_dom)
        with Some ne True show ?thesis
          by (simp add: updateMap_def len_dom update_conv' delete_conv')
      next
        case False
        have "card (insert ?c ?D) \<le> Suc (card ?D)" using fin by (simp add: card_insert_if)
        with False have "card (insert ?c ?D) \<le> 5" by (simp add: len_dom)
        with Some ne False show ?thesis
          by (simp add: updateMap_def len_dom update_conv')
      qed
    qed
  qed
qed

lemma updateMap_overwrite:
  assumes ord: "rangeOrder (map_of m) ks" and key: "DposCBInfo.Cycle info \<in> dom (map_of m)"
  shows "map_of (updateMap ks info m) = (map_of m)(DposCBInfo.Cycle info \<mapsto> info)"
    and "dom (map_of (updateMap ks info m)) = dom (map_of m)"
proof -
  from ord key have "rangeOldest ks (DposCBInfo.Cycle info) 0 = None"
    by (simp add: rangeOldest_None rangeOrder_def)
  then show m: "map_of (updateMap ks info m) = (map_of m)(DposCBInfo.Cycle info \<mapsto> info)"
    by (simp add: updateMap_def update_conv' Let_def)
  from key show "dom (map_of (updateMap ks info m)) = dom (map_of m)"
    unfolding m by auto
qed

lemma dom_cacheOf: "dom (map_of (cacheOf cycles)) = set cycles"
  by (simp add: cacheOf_def dom_map_of_conv_image_fst image_image)

text \<open>
  The examples of the specification: the cache with cycles 3 to 7 evicts cycle 3 on an
  update for cycle 8, and an update for cycle 5 overwrites the entry of cycle 5; both
  for every order of the range loop.
\<close>

lemma UpdateCBInfo_evicts_3:
  assumes "rangeOrder (map_of (cacheOf [3, 4, 5, 6, 7])) ks"
  shows "dom (map_of (cycleBoundaryMap
     (UpdateCBInfo ks (mkCB 8) (cs0\<lparr>cycleBoundaryMap := cacheOf [3, 4, 5, 6, 7]\<rparr>)))) = {4, 5, 6, 7, 8}"
proof -
  let ?m = "cacheOf [3, 4, 5, 6, 7]"
  have d: "dom (map_of ?m) = {3, 4, 5, 6, 7}" by (simp add: dom_cacheOf)
  have l: "len ?m = 5" by (simp add: len_dom d)
  have c: "DposCBInfo.Cycle (mkCB 8) = 8" by (simp add: mkCB_def)
  have "map_of (updateMap ks (mkCB 8) ?m) = ((map_of ?m)(3 := None))(8 \<mapsto> mkCB 8)"
    using updateMap_no_zero_key [OF assms, of "mkCB 8"] by (simp add: d l c)
  then have "dom (map_of (updateMap ks (mkCB 8) ?m)) = insert 8 (dom (map_of ?m) - {3})"
    by simp
  then show ?thesis by (auto simp: UpdateCBInfo_def d)
qed

lemma UpdateCBInfo_overwrites_5:
  assumes "rangeOrder (map_of (cacheOf [3, 4, 5, 6, 7])) ks" and "DposCBInfo.Cycle info = 5"
  shows "dom (map_of (cycleBoundaryMap
     (UpdateCBInfo ks info (cs0\<lparr>cycleBoundaryMap := cacheOf [3, 4, 5, 6, 7]\<rparr>)))) = {3, 4, 5, 6, 7}"
    and "GetCBInfoByCircle 5
     (UpdateCBInfo ks info (cs0\<lparr>cycleBoundaryMap := cacheOf [3, 4, 5, 6, 7]\<rparr>)) = Some info"
  using updateMap_overwrite [OF assms(1), of info] assms(2)
  by (simp_all add: UpdateCBInfo_def GetCBInfoByCircle_def dom_cacheOf)

text \<open>
  C5 on a cache that holds cycle \<open>0\<close>. \<open>oldestCycle = 0\<close> means "not set yet" in the
  range loop, so after the key \<open>0\<close> the next key visited is taken as the oldest: the
  full cache with cycles 0 to 4, visited in this order, evicts cycle \<open>1\<close> on an update
  for cycle 5 and keeps cycle \<open>0\<close>, the smallest key.
\<close>

theorem UpdateCBInfo_zero_key:
  "rangeOrder (map_of (cacheOf [0, 1, 2, 3, 4])) [0, 1, 2, 3, 4] \<and>
   map fst (cycleBoundaryMap
     (UpdateCBInfo [0, 1, 2, 3, 4] (mkCB 5) (cs0\<lparr>cycleBoundaryMap := cacheOf [0, 1, 2, 3, 4]\<rparr>)))
     = [0, 2, 3, 4, 5] \<and>
   Min (set [0, 1, 2, 3, 4 :: int]) = 0"
proof -
  have "rangeOrder (map_of (cacheOf [0, 1, 2, 3, 4])) [0, 1, 2, 3, 4]"
    by (simp add: rangeOrder_def dom_cacheOf)
  moreover have "map fst (cycleBoundaryMap
     (UpdateCBInfo [0, 1, 2, 3, 4] (mkCB 5) (cs0\<lparr>cycleBoundaryMap := cacheOf [0, 1, 2, 3, 4]\<rparr>)))
     = [0, 2, 3, 4, 5]"
    by code_simp
  moreover have "Min (set [0, 1, 2, 3, 4 :: int]) = 0" by simp
  ultimately show ?thesis by blast
qed

subsection \<open>The dispatcher and a panic of a handler\<close>








subsection \<open>Verification of cycle-boundary info\<close>

lemma canonical_form:
  "canonical info = canonicalForm (DposCBInfo.Cycle info) (DposCBInfo.StopHeight info)
     (DposCBInfo.StopHash info) (DposCBInfo.Pubkey info)"
  by (simp add: canonical_def canonicalForm_def)

lemma VerifyCBInfo_validates: "VerifyCBInfo env cs info \<longleftrightarrow> validates env info"
  by (auto simp: VerifyCBInfo_def validates_def canonical_form split: option.splits)

text \<open>
  With the public key and the signature of an info decoded, the answer is that of
  \<open>VerifyBytes\<close> on the serialization of the canonical form.
\<close>

lemma VerifyCBInfo_decoded:
  assumes "DecodeString (DposCBInfo.Pubkey info) = Some bPubkey"
    and "PubKeyFromBytes env bPubkey = Some pk"
    and "DecodeString (DposCBInfo.Signature info) = Some bSig"
    and "SignatureFromBytes env bSig = Some sg"
  shows "VerifyCBInfo env cs info \<longleftrightarrow>
     (\<exists>byteCB. Marshal env (canonicalForm (DposCBInfo.Cycle info) (DposCBInfo.StopHeight info)
                    (DposCBInfo.StopHash info) (DposCBInfo.Pubkey info)) = Some byteCB \<and>
               VerifyBytes env pk byteCB sg)"
  using assms by (auto simp: VerifyCBInfo_def canonical_form split: option.splits)

lemma fromHexChar_hexDigit: "n < 16 \<Longrightarrow> fromHexChar (hexDigit n) = Some n"
proof (cases "n < 10")
  case True
  then have "(of_char (char_of (48 + n)) :: nat) = 48 + n" by simp
  with True show ?thesis by (simp add: fromHexChar_def hexDigit_def Let_def)
next
  case False
  assume "n < 16"
  then have "(of_char (char_of (87 + n)) :: nat) = 87 + n" by simp
  with False \<open>n < 16\<close> show ?thesis by (simp add: fromHexChar_def hexDigit_def Let_def)
qed

lemma of_char_less: "(of_char c :: nat) < 256"
proof -
  have "(of_char c :: nat) mod 256 = of_char c" by simp
  then show ?thesis by (metis mod_less_divisor zero_less_numeral)
qed

lemma DecodeString_EncodeToString: "DecodeString (EncodeToString bs) = Some bs"
proof (induction bs)
  case Nil
  then show ?case by (simp add: EncodeToString_def)
next
  case (Cons c bs)
  let ?n = "of_char c :: nat"
  have hi: "?n div 16 < 16" using of_char_less [of c] by presburger
  have lo: "?n mod 16 < 16" by simp
  have again: "char_of (?n div 16 * 16 + ?n mod 16) = c" by simp
  have "EncodeToString (c # bs) = hexDigit (?n div 16) # hexDigit (?n mod 16) # EncodeToString bs"
    by (simp add: EncodeToString_def)
  then show ?case
    using Cons.IH again by (simp add: fromHexChar_hexDigit [OF hi] fromHexChar_hexDigit [OF lo])
qed

text \<open>The example capability on an info whose key and signature are hexadecimal texts.\<close>

lemma toy_VerifyCBInfo:
  assumes "DposCBInfo.Pubkey info = EncodeToString sk"
    and "DposCBInfo.Signature info = EncodeToString sg"
  shows "VerifyCBInfo toyCrypto cs info \<longleftrightarrow>
     sg = sk @ jsonLike (canonicalForm (DposCBInfo.Cycle info) (DposCBInfo.StopHeight info)
                          (DposCBInfo.StopHash info) (DposCBInfo.Pubkey info))"
proof -
  have "VerifyCBInfo toyCrypto cs info \<longleftrightarrow>
     (\<exists>byteCB. Marshal toyCrypto (canonicalForm (DposCBInfo.Cycle info) (DposCBInfo.StopHeight info)
                    (DposCBInfo.StopHash info) (DposCBInfo.Pubkey info)) = Some byteCB \<and>
               VerifyBytes toyCrypto sk byteCB sg)"
    by (rule VerifyCBInfo_decoded [of info sk _ _ sg])
       (simp_all add: assms DecodeString_EncodeToString toyCrypto_def)
  then show ?thesis by (simp add: toyCrypto_def)
qed

lemma toySigned_signedWith: "signedWith toyCrypto toySign id sk (toySigned sk cycle stopHeight stopHash)"
  unfolding signedWith_def
  by (intro exI [of _ sk]
        exI [of _ "toySign sk (jsonLike (canonicalForm cycle stopHeight stopHash (EncodeToString sk)))"]
        exI [of _ "jsonLike (canonicalForm cycle stopHeight stopHash (EncodeToString sk))"])
     (simp add: toySigned_def DecodeString_EncodeToString toyCrypto_def)

text \<open>
  C6, as amended. \<open>VerifyCBInfo\<close> answers true exactly when the public key and the
  signature of the info decode and the signature validates under that public key over
  the serialization of the canonical form \<open>{cycle, stop_height, stop_hash, pubkey}\<close>;
  the answer does not depend on the consensus state, so not on the validator set. If
  signatures made with a private key validate under its public key, an info signed
  with the private key of the public key it carries verifies as true. With another
  stop hash, and the key and the signature as they are, the answer is that of
  \<open>VerifyBytes\<close> on the serialization of the canonical form with the new stop hash: it
  is false exactly when the signature does not validate over the new serialization,
  and it is the answer for the info itself when the serialization is the same.
\<close>

theorem VerifyCBInfo_spec:
  "(VerifyCBInfo env cs info \<longleftrightarrow> validates env info) \<and>
   VerifyCBInfo env cs info = VerifyCBInfo env cs' info \<and>
   ((\<forall>m. VerifyBytes env (pubOf sk) m (sign sk m)) \<and> signedWith env sign pubOf sk info \<longrightarrow>
      VerifyCBInfo env cs info) \<and>
   (DecodeString (DposCBInfo.Pubkey info) = Some bPubkey \<and> PubKeyFromBytes env bPubkey = Some pk \<and>
    DecodeString (DposCBInfo.Signature info) = Some bSig \<and> SignatureFromBytes env bSig = Some sg \<longrightarrow>
      (VerifyCBInfo env cs (info\<lparr>DposCBInfo.StopHash := h\<rparr>) \<longleftrightarrow>
         (\<exists>byteCB. Marshal env (canonicalForm (DposCBInfo.Cycle info) (DposCBInfo.StopHeight info)
                        h (DposCBInfo.Pubkey info)) = Some byteCB \<and>
                   VerifyBytes env pk byteCB sg))) \<and>
   (Marshal env (canonicalForm (DposCBInfo.Cycle info) (DposCBInfo.StopHeight info)
                   h (DposCBInfo.Pubkey info)) =
    Marshal env (canonicalForm (DposCBInfo.Cycle info) (DposCBInfo.StopHeight info)
                   (DposCBInfo.StopHash info) (DposCBInfo.Pubkey info)) \<longrightarrow>
      VerifyCBInfo env cs (info\<lparr>DposCBInfo.StopHash := h\<rparr>) = VerifyCBInfo env cs info)"
proof -
  have frame: "VerifyCBInfo env cs info = VerifyCBInfo env cs' info"
    by (simp add: VerifyCBInfo_def)
  have signed: "VerifyCBInfo env cs info"
    if "\<forall>m. VerifyBytes env (pubOf sk) m (sign sk m)" "signedWith env sign pubOf sk info"
    using that by (auto simp: VerifyCBInfo_def signedWith_def canonical_form)
  have changed: "VerifyCBInfo env cs (info\<lparr>DposCBInfo.StopHash := h\<rparr>) \<longleftrightarrow>
         (\<exists>byteCB. Marshal env (canonicalForm (DposCBInfo.Cycle info) (DposCBInfo.StopHeight info)
                        h (DposCBInfo.Pubkey info)) = Some byteCB \<and>
                   VerifyBytes env pk byteCB sg)"
    if "DecodeString (DposCBInfo.Pubkey info) = Some bPubkey" "PubKeyFromBytes env bPubkey = Some pk"
      "DecodeString (DposCBInfo.Signature info) = Some bSig" "SignatureFromBytes env bSig = Some sg"
    using VerifyCBInfo_decoded [of "info\<lparr>DposCBInfo.StopHash := h\<rparr>" bPubkey env pk bSig sg cs] that
    by simp
  have same: "VerifyCBInfo env cs (info\<lparr>DposCBInfo.StopHash := h\<rparr>) = VerifyCBInfo env cs info"
    if "Marshal env (canonicalForm (DposCBInfo.Cycle info) (DposCBInfo.StopHeight info)
                   h (DposCBInfo.Pubkey info)) =
        Marshal env (canonicalForm (DposCBInfo.Cycle info) (DposCBInfo.StopHeight info)
                   (DposCBInfo.StopHash info) (DposCBInfo.Pubkey info))"
    using that by (simp add: VerifyCBInfo_def canonical_form split: option.splits)
  from VerifyCBInfo_validates [of env cs info] frame signed changed same show ?thesis by blast
qed

theorem VerifyCBInfo_spec_witness:
  "signedWith toyCrypto toySign id ''k1'' signedInfo \<and>
   DecodeString (DposCBInfo.Pubkey signedInfo) = Some ''k1'' \<and>
   PubKeyFromBytes toyCrypto ''k1'' = Some ''k1'' \<and>
   VerifyCBInfo toyCrypto cs0 signedInfo \<and>
   \<not> VerifyCBInfo toyCrypto cs0 (signedInfo\<lparr>DposCBInfo.StopHash := ''G''\<rparr>)"
proof -
  let ?payload = "\<lambda>h. jsonLike (canonicalForm 7 1000 h (EncodeToString ''k1''))"
  have correct: "\<forall>m. VerifyBytes toyCrypto (id ''k1'') m (toySign ''k1'' m)"
    by (simp add: toyCrypto_def toySign_def)
  have sg: "signedWith toyCrypto toySign id ''k1'' signedInfo"
    unfolding signedInfo_def by (rule toySigned_signedWith)
  have d: "DecodeString (DposCBInfo.Pubkey signedInfo) = Some ''k1''"
      "PubKeyFromBytes toyCrypto ''k1'' = Some ''k1''"
      "DecodeString (DposCBInfo.Signature signedInfo) = Some (toySign ''k1'' (?payload ''H''))"
      "SignatureFromBytes toyCrypto (toySign ''k1'' (?payload ''H'')) = Some (toySign ''k1'' (?payload ''H''))"
    by (simp_all add: signedInfo_def toySigned_def DecodeString_EncodeToString toyCrypto_def)
  have ne: "?payload ''G'' \<noteq> ?payload ''H''" by code_simp
  note spec = VerifyCBInfo_spec [of toyCrypto cs0 signedInfo cs0 id "''k1''" toySign
      "''k1''" "''k1''" "toySign ''k1'' (?payload ''H'')" "toySign ''k1'' (?payload ''H'')" "''G''"]
  from spec correct sg have t: "VerifyCBInfo toyCrypto cs0 signedInfo" by blast
  from spec d have "VerifyCBInfo toyCrypto cs0 (signedInfo\<lparr>DposCBInfo.StopHash := ''G''\<rparr>) \<longleftrightarrow>
     (\<exists>byteCB. Marshal toyCrypto (canonicalForm (DposCBInfo.Cycle signedInfo)
          (DposCBInfo.StopHeight signedInfo) ''G'' (DposCBInfo.Pubkey signedInfo)) = Some byteCB \<and>
        VerifyBytes toyCrypto ''k1'' byteCB (toySign ''k1'' (?payload ''H'')))"
    by blast
  with ne have f: "\<not> VerifyCBInfo toyCrypto cs0 (signedInfo\<lparr>DposCBInfo.StopHash := ''G''\<rparr>)"
    by (simp add: toyCrypto_def toySign_def signedInfo_def toySigned_def)
  from sg d(1,2) t f show ?thesis by blast
qed

text \<open>
  C6 as stated fails where the serialization does not tell two stop hashes apart, as
  \<open>encoding/json\<close> does not for bytes outside valid UTF-8: the info with the stop hash
  \<open>0xFF\<close>, signed over its canonical form, verifies as true, and so does the info with
  that byte changed to \<open>0xFE\<close>.
\<close>

theorem VerifyCBInfo_flip_counterexample:
  "DposCBInfo.StopHash highInfo = [CHR 0xFF] \<and> [CHR 0xFE] \<noteq> [CHR 0xFF] \<and>
   DposCBInfo.Signature highInfo =
     EncodeToString (toySign ''k1'' (jsonLike (canonical highInfo))) \<and>
   VerifyCBInfo toyCrypto cs0 highInfo \<and>
   VerifyCBInfo toyCrypto cs0 (highInfo\<lparr>DposCBInfo.StopHash := [CHR 0xFE]\<rparr>)"
proof -
  have same: "jsonLike (canonicalForm 7 1000 [CHR 0xFE] (EncodeToString ''k1'')) =
              jsonLike (canonicalForm 7 1000 [CHR 0xFF] (EncodeToString ''k1''))"
    by code_simp
  have ne: "[CHR 0xFE] \<noteq> [CHR 0xFF]" by simp
  have sg: "DposCBInfo.Signature highInfo =
     EncodeToString (toySign ''k1'' (jsonLike (canonical highInfo)))"
    by (simp add: highInfo_def toySigned_def canonical_form)
  have t: "VerifyCBInfo toyCrypto cs0 highInfo"
    by (subst toy_VerifyCBInfo [of _ "''k1''" "toySign ''k1'' (jsonLike (canonical highInfo))"])
       (simp_all add: highInfo_def toySigned_def canonical_form toySign_def)
  have f: "VerifyCBInfo toyCrypto cs0 (highInfo\<lparr>DposCBInfo.StopHash := [CHR 0xFE]\<rparr>)"
    by (subst toy_VerifyCBInfo [of _ "''k1''" "toySign ''k1'' (jsonLike (canonical highInfo))"])
       (simp_all add: highInfo_def toySigned_def canonical_form toySign_def same)
  have h: "DposCBInfo.StopHash highInfo = [CHR 0xFF]" by (simp add: highInfo_def toySigned_def)
  from h ne sg t f show ?thesis by blast
qed

text \<open>
  Each of the four fields is part of what is signed: with the example capability, the
  signed info verifies as true, and with another cycle, stop height, stop hash or
  signature it verifies as false; so it does with another text in the field of the
  public key, also when the capability reads the same key from every such text.
\<close>

lemma VerifyCBInfo_payload_fields:
  "VerifyCBInfo toyCrypto cs0 signedInfo"
  "\<not> VerifyCBInfo toyCrypto cs0 (signedInfo\<lparr>DposCBInfo.Cycle := 8\<rparr>)"
  "\<not> VerifyCBInfo toyCrypto cs0 (signedInfo\<lparr>DposCBInfo.StopHeight := 1001\<rparr>)"
  "\<not> VerifyCBInfo toyCrypto cs0 (signedInfo\<lparr>DposCBInfo.StopHash := ''G''\<rparr>)"
  "\<not> VerifyCBInfo toyCrypto cs0 (signedInfo\<lparr>DposCBInfo.Signature := EncodeToString ''k1''\<rparr>)"
  "\<not> VerifyCBInfo (toyCrypto\<lparr>PubKeyFromBytes := (\<lambda>b. Some ''k1'')\<rparr>) cs0
       (signedInfo\<lparr>DposCBInfo.Pubkey := EncodeToString ''k2''\<rparr>)"
proof -
  let ?pub = "EncodeToString ''k1''"
  let ?p = "jsonLike (canonicalForm 7 1000 ''H'' ?pub)"
  have ne: "jsonLike (canonicalForm 8 1000 ''H'' ?pub) \<noteq> ?p"
    "jsonLike (canonicalForm 7 1001 ''H'' ?pub) \<noteq> ?p"
    "jsonLike (canonicalForm 7 1000 ''G'' ?pub) \<noteq> ?p"
    "jsonLike (canonicalForm 7 1000 ''H'' (EncodeToString ''k2'')) \<noteq> ?p"
    "?p \<noteq> []"
    by code_simp+
  have toy: "VerifyCBInfo toyCrypto cs0 info \<longleftrightarrow>
      sg = ''k1'' @ jsonLike (canonicalForm (DposCBInfo.Cycle info) (DposCBInfo.StopHeight info)
                          (DposCBInfo.StopHash info) (DposCBInfo.Pubkey info))"
    if "DposCBInfo.Pubkey info = ?pub" "DposCBInfo.Signature info = EncodeToString sg" for info sg
    using that by (rule toy_VerifyCBInfo)
  show "VerifyCBInfo toyCrypto cs0 signedInfo"
    by (subst toy [of _ "''k1'' @ ?p"]) (simp_all add: signedInfo_def toySigned_def toySign_def)
  show "\<not> VerifyCBInfo toyCrypto cs0 (signedInfo\<lparr>DposCBInfo.Cycle := 8\<rparr>)"
    using ne(1)
    by (subst toy [of _ "''k1'' @ ?p"]) (simp_all add: signedInfo_def toySigned_def toySign_def)
  show "\<not> VerifyCBInfo toyCrypto cs0 (signedInfo\<lparr>DposCBInfo.StopHeight := 1001\<rparr>)"
    using ne(2)
    by (subst toy [of _ "''k1'' @ ?p"]) (simp_all add: signedInfo_def toySigned_def toySign_def)
  show "\<not> VerifyCBInfo toyCrypto cs0 (signedInfo\<lparr>DposCBInfo.StopHash := ''G''\<rparr>)"
    using ne(3)
    by (subst toy [of _ "''k1'' @ ?p"]) (simp_all add: signedInfo_def toySigned_def toySign_def)
  show "\<not> VerifyCBInfo toyCrypto cs0 (signedInfo\<lparr>DposCBInfo.Signature := EncodeToString ''k1''\<rparr>)"
    using ne(5)
    by (subst toy [of _ "''k1''"]) (simp_all add: signedInfo_def toySigned_def)
  show "\<not> VerifyCBInfo (toyCrypto\<lparr>PubKeyFromBytes := (\<lambda>b. Some ''k1'')\<rparr>) cs0
       (signedInfo\<lparr>DposCBInfo.Pubkey := EncodeToString ''k2''\<rparr>)"
    using ne(4)
    by (subst VerifyCBInfo_decoded [of _ "''k2''" _ "''k1''" "''k1'' @ ?p" "''k1'' @ ?p"])
       (simp_all add: signedInfo_def toySigned_def toySign_def toyCrypto_def
          DecodeString_EncodeToString)
qed

end
